theory Spec2Isabelle
  imports Main
begin

section \<open>The result window of the widgetsboxmodel plugin\<close>

text \<open>
  This theory embeds the presentation core of \<^verbatim>\<open>widgetsboxmodel/src/plugin.cpp\<close>:
  the state chart built by \<^verbatim>\<open>Plugin::init_statemachine\<close>, the handlers connected to the
  \<^verbatim>\<open>entered\<close> and \<^verbatim>\<open>exited\<close> signals of its states, the slot connected to
  \<^verbatim>\<open>QLineEdit::textChanged\<close> in the constructor, the \<^verbatim>\<open>activate\<close> closure and the
  \<^verbatim>\<open>Show\<close> and \<^verbatim>\<open>Hide\<close> branches of \<^verbatim>\<open>Plugin::eventFilter\<close>.

  The C++ objects are modelled by their observable state. A \<^verbatim>\<open>Query\<close> object is a
  natural number (its identity) and a record in a store; a null \<^verbatim>\<open>shared_ptr\<close> is
  \<open>None\<close>; dereferencing it is the error \<open>NullQuery\<close>; \<^verbatim>\<open>qFatal\<close> is the error
  \<open>Fatal\<close>. Item models are reduced to their rows, a row to the number of actions it
  offers. The interpreter of the state chart is the algorithm of Qt's
  \<^verbatim>\<open>QStateMachine\<close> (the one of SCXML): transition selection from the atomic states
  upwards, removal of conflicting transitions, exit set below the transition domain,
  entry set with initial states and parallel siblings, exits in reverse document
  order, entries in document order. Signals and filtered events are processed by
  the machine directly when they are emitted, after the slots connected earlier.
\<close>

subsection \<open>Data\<close>

datatype error = NullQuery | Fatal

text \<open>The keys a transition can be bound to (\<^verbatim>\<open>mods_keys\<close>), and every other key.\<close>

datatype key = Key_Shift | Key_Meta | Key_Control | Key_Alt | Key_other nat

text \<open>
  The type of \<^verbatim>\<open>mod_fallback\<close> and \<^verbatim>\<open>mod_actions\<close> is declared in \<^verbatim>\<open>plugin.h\<close>; the
  source casts it to the index of \<^verbatim>\<open>mods_keys\<close>, whose four entries are listed in
  \<^verbatim>\<open>plugin.cpp\<close>. The two members are read once, when the transitions are created,
  and are parameters of the model.
\<close>

datatype Mod = Mod_Shift | Mod_Meta | Mod_Control | Mod_Alt

fun mods_keys :: "Mod \<Rightarrow> key" where
  "mods_keys Mod_Shift = Key_Shift"
| "mods_keys Mod_Meta = Key_Meta"
| "mods_keys Mod_Control = Key_Control"
| "mods_keys Mod_Alt = Key_Alt"

record mods =
  mod_fallback :: Mod
  mod_actions :: Mod

text \<open>A result item, reduced to the number of rows of its action list.\<close>

type_synonym item = nat

record query =
  query_string :: string
  started :: bool
  canceled :: bool
  isFinished :: bool
  matches :: "item list"
  fallbacks :: "item list"

text \<open>The item models a view can be bound to; each belongs to one query object.\<close>

datatype model_ref =
    MatchesOf nat
  | FallbacksOf nat
  | MatchActions nat nat
  | FallbackActions nat nat

datatype query_signal = Query_finished | Matches_rowsInserted

datatype widget = W_plugin | W_results_list | W_actions_list

datatype hint = NoHint | Synopsis nat | InputAction model_ref nat

datatype direction = Forward | Backward

datatype call = ActivateMatch nat nat nat | ActivateFallback nat nat nat | WARN

datatype state =
    s_top
  | s_button
  | s_button_hidden
  | s_button_shown
  | s_results
  | s_results_hidden
  | s_results_postpone
  | s_results_visible
  | s_results_model
  | s_results_model_matches
  | s_results_model_fallbacks
  | s_results_actions
  | s_results_actions_hidden
  | s_results_actions_visible

text \<open>
  The plugin: the store of the query objects and the next identity to give out; the
  members \<^verbatim>\<open>current_query\<close>, \<^verbatim>\<open>displayed_query\<close>, \<^verbatim>\<open>queries_\<close> (here \<open>queries_list\<close>),
  \<^verbatim>\<open>show_fallbacks_on_empty_query\<close>, \<^verbatim>\<open>clearOnHide_\<close> (here \<open>clearOnHide_flag\<close>) and
  \<^verbatim>\<open>history_\<close> (here \<open>history\<close>, the texts given to \<^verbatim>\<open>add\<close>); the connections from the
  signals of the queries to the signals of the plugin; the \<^verbatim>\<open>active\<close> property of the
  states; the timer; what the claims need of the window, its input line, its two lists
  and the animation of its button; and the calls made to the queries by activations.
\<close>

record plugin =
  queries :: "nat \<Rightarrow> query"
  next_query :: nat
  current_query :: "nat option"
  displayed_query :: "nat option"
  queries_list :: "nat list"
  connections :: "(nat \<times> query_signal) list"
  show_fallbacks_on_empty_query :: bool
  clearOnHide_flag :: bool
  active :: "state set"
  timer_active :: bool
  window_visible :: bool
  input_text :: string
  input_hint :: hint
  input_underMouse :: bool
  input_filters :: "widget list"
  results_model :: "model_ref option"
  results_current :: "nat option"
  results_visible :: bool
  results_enabled :: bool
  actions_model :: "model_ref option"
  actions_current :: "nat option"
  actions_visible :: bool
  opacity_direction :: direction
  history :: "string list"
  calls :: "call list"

subsection \<open>The state tree\<close>

datatype child_mode = ExclusiveStates | ParallelStates

text \<open>The parent given to each \<^verbatim>\<open>new QState\<close>; \<open>s_top\<close> is added to the machine itself.\<close>

fun parentState :: "state \<Rightarrow> state option" where
  "parentState s_top = None"
| "parentState s_button = Some s_top"
| "parentState s_button_hidden = Some s_button"
| "parentState s_button_shown = Some s_button"
| "parentState s_results = Some s_top"
| "parentState s_results_hidden = Some s_results"
| "parentState s_results_postpone = Some s_results"
| "parentState s_results_visible = Some s_results"
| "parentState s_results_model = Some s_results_visible"
| "parentState s_results_model_matches = Some s_results_model"
| "parentState s_results_model_fallbacks = Some s_results_model"
| "parentState s_results_actions = Some s_results_visible"
| "parentState s_results_actions_hidden = Some s_results_actions"
| "parentState s_results_actions_visible = Some s_results_actions"

fun childMode :: "state \<Rightarrow> child_mode" where
  "childMode s_top = ParallelStates"
| "childMode s_results_visible = ParallelStates"
| "childMode s = ExclusiveStates"

fun initialState :: "state \<Rightarrow> state option" where
  "initialState s_button = Some s_button_hidden"
| "initialState s_results = Some s_results_hidden"
| "initialState s_results_model = Some s_results_model_matches"
| "initialState s_results_actions = Some s_results_actions_hidden"
| "initialState s = None"

text \<open>The states in the order of their creation, which is the document order of the tree.\<close>

definition document_order :: "state list" where
  "document_order =
    [s_top, s_button, s_button_hidden, s_button_shown, s_results, s_results_hidden,
     s_results_postpone, s_results_visible, s_results_model, s_results_model_matches,
     s_results_model_fallbacks, s_results_actions, s_results_actions_hidden,
     s_results_actions_visible]"

definition childStates :: "state \<Rightarrow> state list" where
  "childStates s = filter (\<lambda>c. parentState c = Some s) document_order"

definition isParallel :: "state \<Rightarrow> bool" where
  "isParallel s = (childMode s = ParallelStates)"

definition isCompound :: "state \<Rightarrow> bool" where
  "isCompound s = (childMode s = ExclusiveStates \<and> childStates s \<noteq> [])"

definition isAtomic :: "state \<Rightarrow> bool" where
  "isAtomic s = (childStates s = [])"

fun depth :: "state \<Rightarrow> nat" where
  "depth s_top = 0"
| "depth s_button = 1"
| "depth s_results = 1"
| "depth s_button_hidden = 2"
| "depth s_button_shown = 2"
| "depth s_results_hidden = 2"
| "depth s_results_postpone = 2"
| "depth s_results_visible = 2"
| "depth s_results_model = 3"
| "depth s_results_actions = 3"
| "depth s = 4"

function getProperAncestors :: "state \<Rightarrow> state list" where
  "getProperAncestors s =
     (case parentState s of None \<Rightarrow> [] | Some a \<Rightarrow> a # getProperAncestors a)"
  by pat_completeness auto
termination
  by (relation "measure depth") (auto elim: parentState.elims)

declare getProperAncestors.simps [simp del]

definition isDescendant :: "state \<Rightarrow> state \<Rightarrow> bool" where
  "isDescendant s a = (a \<in> set (getProperAncestors s))"


subsection \<open>Views, event filters and the handlers of the states\<close>

text \<open>
  \<^verbatim>\<open>rowCount()\<close> of a model. The action list of a row that the query does not have is
  taken to be empty.
\<close>

fun rowCount :: "(nat \<Rightarrow> query) \<Rightarrow> model_ref \<Rightarrow> nat" where
  "rowCount qs (MatchesOf q) = length (matches (qs q))"
| "rowCount qs (FallbacksOf q) = length (fallbacks (qs q))"
| "rowCount qs (MatchActions q r) =
     (if r < length (matches (qs q)) then matches (qs q) ! r else 0)"
| "rowCount qs (FallbackActions q r) =
     (if r < length (fallbacks (qs q)) then fallbacks (qs q) ! r else 0)"

text \<open>\<^verbatim>\<open>m->index(0, 0)\<close>: the first row, invalid when the model has no rows.\<close>

definition index00 :: "(nat \<Rightarrow> query) \<Rightarrow> model_ref \<Rightarrow> nat option" where
  "index00 qs m = (if 0 < rowCount qs m then Some 0 else None)"

text \<open>The filters of the input line, the one that sees an event first at the head.\<close>

definition installEventFilter :: "widget \<Rightarrow> widget list \<Rightarrow> widget list" where
  "installEventFilter w fs = w # removeAll w fs"

definition removeEventFilter :: "widget \<Rightarrow> widget list \<Rightarrow> widget list" where
  "removeEventFilter w fs = removeAll w fs"

text \<open>
  Entering \<open>s_results_model_matches\<close>. \<^verbatim>\<open>setModel\<close> gives the view a new selection model
  without a current index, unless the model is the one already set: then it returns at
  once, the selection model of the view is the one the handler deletes, and the view is
  left without a current index. The slot connected to \<^verbatim>\<open>currentChanged\<close> sets the input
  hint when the current index becomes valid, unless the signal is blocked.
\<close>

definition entered_results_model_matches :: "plugin \<Rightarrow> error + plugin" where
  "entered_results_model_matches p =
     (case current_query p of
        None \<Rightarrow> Inl NullQuery
      | Some q \<Rightarrow>
          let m = MatchesOf q;
              i = (if Some m = results_model p then None else index00 (queries p) m)
          in Inr (p\<lparr>results_model := Some m,
                    connections := removeAll (q, Matches_rowsInserted) (connections p),
                    results_current := i,
                    input_hint :=
                      (if query_string (queries p q) = [] \<or> i = None then input_hint p
                       else InputAction m 0),
                    results_visible := True\<rparr>))"

definition entered_results_model_fallbacks :: "plugin \<Rightarrow> error + plugin" where
  "entered_results_model_fallbacks p =
     (case current_query p of
        None \<Rightarrow> Inl NullQuery
      | Some q \<Rightarrow>
          let m = FallbacksOf q;
              p' = (if Some m \<noteq> results_model p
                    then p\<lparr>results_model := Some m, results_current := index00 (queries p) m\<rparr>
                    else p)
          in Inr (p'\<lparr>results_visible := True\<rparr>))"

definition show_actions :: "model_ref \<Rightarrow> plugin \<Rightarrow> plugin" where
  "show_actions m p =
     p\<lparr>actions_model := Some m,
       actions_current := index00 (queries p) m,
       actions_visible := True,
       input_filters := installEventFilter W_actions_list (input_filters p)\<rparr>"

definition entered_results_actions_visible :: "plugin \<Rightarrow> error + plugin" where
  "entered_results_actions_visible p =
     (case results_current p of
        None \<Rightarrow> Inr p
      | Some row \<Rightarrow>
          if s_results_model_matches \<in> active p then
            (case current_query p of
               None \<Rightarrow> Inl NullQuery
             | Some q \<Rightarrow> Inr (show_actions (MatchActions q row) p))
          else if s_results_model_fallbacks \<in> active p then
            (case current_query p of
               None \<Rightarrow> Inl NullQuery
             | Some q \<Rightarrow> Inr (show_actions (FallbackActions q row) p))
          else Inl Fatal)"

text \<open>The slots connected to \<^verbatim>\<open>QState::entered\<close>.\<close>

fun entered :: "state \<Rightarrow> plugin \<Rightarrow> error + plugin" where
  "entered s_results_hidden p = Inr (p\<lparr>results_visible := False\<rparr>)"
| "entered s_results_postpone p = Inr (p\<lparr>timer_active := True, results_enabled := False\<rparr>)"
| "entered s_results_visible p =
     Inr (p\<lparr>input_filters :=
              installEventFilter W_plugin
                (installEventFilter W_results_list
                  (removeEventFilter W_plugin (input_filters p)))\<rparr>)"
| "entered s_results_model_matches p = entered_results_model_matches p"
| "entered s_results_model_fallbacks p = entered_results_model_fallbacks p"
| "entered s_results_actions_visible p = entered_results_actions_visible p"
| "entered s_button_shown p = Inr (p\<lparr>opacity_direction := Forward\<rparr>)"
| "entered s p = Inr p"

text \<open>The slots connected to \<^verbatim>\<open>QState::exited\<close>.\<close>

fun exited :: "state \<Rightarrow> plugin \<Rightarrow> plugin" where
  "exited s_results_postpone p =
     p\<lparr>displayed_query := current_query p, results_enabled := True\<rparr>"
| "exited s_results_visible p =
     p\<lparr>input_filters := removeEventFilter W_results_list (input_filters p)\<rparr>"
| "exited s_results_actions_visible p =
     p\<lparr>actions_visible := False,
       input_filters := removeEventFilter W_actions_list (input_filters p)\<rparr>"
| "exited s_button_shown p = p\<lparr>opacity_direction := Backward\<rparr>"
| "exited s p = p"

subsection \<open>Transitions\<close>

text \<open>What the machine receives: a signal of a given sender, or a filtered event.\<close>

datatype sm_event =
    Sig_textChanged
  | Sig_timeout
  | Sig_queryFinsished
  | Sig_resultsReady
  | Ev_KeyPress key
  | Ev_KeyRelease key
  | Ev_Enter
  | Ev_Leave

type_synonym eventTest = "sm_event \<Rightarrow> plugin \<Rightarrow> error + bool"

definition QSignalTransition :: "sm_event \<Rightarrow> eventTest" where
  "QSignalTransition sig e p = Inr (e = sig)"

definition QEventTransition :: "sm_event \<Rightarrow> eventTest" where
  "QEventTransition ev e p = Inr (e = ev)"

definition QKeyEventTransition :: "(key \<Rightarrow> sm_event) \<Rightarrow> key \<Rightarrow> eventTest" where
  "QKeyEventTransition type k e p = Inr (e = type k)"

text \<open>The three conditional transitions: the base test, and only then the closure.\<close>

definition CondSignalTransition :: "sm_event \<Rightarrow> (plugin \<Rightarrow> error + bool) \<Rightarrow> eventTest" where
  "CondSignalTransition sig test e p = (if e = sig then test p else Inr False)"

definition CondEventTransition :: "sm_event \<Rightarrow> (plugin \<Rightarrow> error + bool) \<Rightarrow> eventTest" where
  "CondEventTransition ev test e p = (if e = ev then test p else Inr False)"

definition CondKeyEventTransition ::
  "(key \<Rightarrow> sm_event) \<Rightarrow> key \<Rightarrow> (plugin \<Rightarrow> error + bool) \<Rightarrow> eventTest" where
  "CondKeyEventTransition type k test e p = (if e = type k then test p else Inr False)"

text \<open>The closures given to the conditional transitions.\<close>

definition with_current_query :: "(query \<Rightarrow> bool) \<Rightarrow> plugin \<Rightarrow> error + bool" where
  "with_current_query f p =
     (case current_query p of None \<Rightarrow> Inl NullQuery | Some q \<Rightarrow> Inr (f (queries p q)))"

definition no_fallbacks_to_show :: "plugin \<Rightarrow> error + bool" where
  "no_fallbacks_to_show p =
     (if \<not> show_fallbacks_on_empty_query p then Inr True
      else with_current_query (\<lambda>q. length (fallbacks q) = 0) p)"

definition fallbacks_to_show :: "plugin \<Rightarrow> error + bool" where
  "fallbacks_to_show p =
     (if show_fallbacks_on_empty_query p
      then with_current_query (\<lambda>q. length (fallbacks q) > 0) p
      else Inr False)"

definition have_fallbacks :: "plugin \<Rightarrow> error + bool" where
  "have_fallbacks = with_current_query (\<lambda>q. length (fallbacks q) > 0)"

definition no_matches :: "plugin \<Rightarrow> error + bool" where
  "no_matches = with_current_query (\<lambda>q. length (matches q) = 0)"

definition have_matches :: "plugin \<Rightarrow> error + bool" where
  "have_matches = with_current_query (\<lambda>q. length (matches q) \<noteq> 0)"

definition input_not_underMouse :: "plugin \<Rightarrow> error + bool" where
  "input_not_underMouse p = Inr (\<not> input_underMouse p)"

definition current_query_isFinished :: "plugin \<Rightarrow> error + bool" where
  "current_query_isFinished = with_current_query isFinished"

text \<open>
  The transitions of each state, as (target, test), in the order of the calls of
  \<^verbatim>\<open>setTransition\<close>.
\<close>

fun transitions :: "mods \<Rightarrow> state \<Rightarrow> (state \<times> eventTest) list" where
  "transitions m s_results_visible =
     [(s_results_postpone, QSignalTransition Sig_textChanged)]"
| "transitions m s_results_postpone =
     [(s_results_hidden, QSignalTransition Sig_timeout),
      (s_results_hidden, CondSignalTransition Sig_queryFinsished no_fallbacks_to_show),
      (s_results_model_fallbacks, CondSignalTransition Sig_queryFinsished fallbacks_to_show),
      (s_results_model_fallbacks,
         CondKeyEventTransition Ev_KeyPress (mods_keys (mod_fallback m)) have_fallbacks),
      (s_results_model_matches, QSignalTransition Sig_resultsReady)]"
| "transitions m s_results_hidden =
     [(s_results_model_fallbacks, CondSignalTransition Sig_queryFinsished fallbacks_to_show),
      (s_results_model_fallbacks,
         CondKeyEventTransition Ev_KeyPress (mods_keys (mod_fallback m)) have_fallbacks),
      (s_results_model_matches, QSignalTransition Sig_resultsReady)]"
| "transitions m s_results_model_fallbacks =
     [(s_results_hidden,
         CondKeyEventTransition Ev_KeyRelease (mods_keys (mod_fallback m)) no_matches),
      (s_results_model_matches,
         CondKeyEventTransition Ev_KeyRelease (mods_keys (mod_fallback m)) have_matches)]"
| "transitions m s_results_model_matches =
     [(s_results_model_fallbacks,
         CondKeyEventTransition Ev_KeyPress (mods_keys (mod_fallback m)) have_fallbacks)]"
| "transitions m s_results_actions_hidden =
     [(s_results_actions_visible, QKeyEventTransition Ev_KeyPress (mods_keys (mod_actions m)))]"
| "transitions m s_results_actions_visible =
     [(s_results_actions_hidden, QKeyEventTransition Ev_KeyRelease (mods_keys (mod_actions m)))]"
| "transitions m s_button_hidden =
     [(s_button_shown, QEventTransition Ev_Enter),
      (s_button_shown, QSignalTransition Sig_textChanged)]"
| "transitions m s_button_shown =
     [(s_button_hidden, CondSignalTransition Sig_queryFinsished input_not_underMouse),
      (s_button_hidden, CondEventTransition Ev_Leave current_query_isFinished)]"
| "transitions m s = []"


subsection \<open>The interpreter of the state chart\<close>

text \<open>A selected transition: its source, its position among the transitions of the
  source, and its target.\<close>

datatype transition = Transition (sourceState: state) (position: nat) (targetState: state)

fun firstEnabled ::
  "sm_event \<Rightarrow> plugin \<Rightarrow> state \<Rightarrow> nat \<Rightarrow> (state \<times> eventTest) list \<Rightarrow> error + transition option" where
  "firstEnabled e p s k [] = Inr None"
| "firstEnabled e p s k ((target, test) # ts) =
     (case test e p of
        Inl err \<Rightarrow> Inl err
      | Inr True \<Rightarrow> Inr (Some (Transition s k target))
      | Inr False \<Rightarrow> firstEnabled e p s (Suc k) ts)"

text \<open>The first enabled transition of a state or, failing that, of its nearest ancestor.\<close>

fun searchStates ::
  "mods \<Rightarrow> sm_event \<Rightarrow> plugin \<Rightarrow> state list \<Rightarrow> error + transition option" where
  "searchStates m e p [] = Inr None"
| "searchStates m e p (s # lst) =
     (case firstEnabled e p s 0 (transitions m s) of
        Inl err \<Rightarrow> Inl err
      | Inr (Some t) \<Rightarrow> Inr (Some t)
      | Inr None \<Rightarrow> searchStates m e p lst)"

fun enabledTransitions ::
  "mods \<Rightarrow> sm_event \<Rightarrow> plugin \<Rightarrow> state list \<Rightarrow> error + transition list" where
  "enabledTransitions m e p [] = Inr []"
| "enabledTransitions m e p (s # ss) =
     (case searchStates m e p (s # getProperAncestors s) of
        Inl err \<Rightarrow> Inl err
      | Inr found \<Rightarrow>
          (case enabledTransitions m e p ss of
             Inl err \<Rightarrow> Inl err
           | Inr ts \<Rightarrow> Inr ((case found of None \<Rightarrow> [] | Some t \<Rightarrow> [t]) @ ts)))"

text \<open>
  The domain of a transition is the least compound ancestor of its source that contains
  its target; \<open>None\<close> is the machine itself.
\<close>

definition findLCCA :: "state \<Rightarrow> state \<Rightarrow> state option" where
  "findLCCA s t = find (\<lambda>a. isCompound a \<and> isDescendant t a) (getProperAncestors s)"

definition getTransitionDomain :: "transition \<Rightarrow> state option" where
  "getTransitionDomain t = findLCCA (sourceState t) (targetState t)"

definition below :: "state option \<Rightarrow> state \<Rightarrow> bool" where
  "below domain s = (case domain of None \<Rightarrow> True | Some d \<Rightarrow> isDescendant s d)"

definition computeExitSet_Unordered :: "state set \<Rightarrow> transition \<Rightarrow> state list" where
  "computeExitSet_Unordered configuration t =
     filter (\<lambda>s. s \<in> configuration \<and> below (getTransitionDomain t) s) document_order"

definition indexOf :: "state \<Rightarrow> nat" where
  "indexOf s = length (takeWhile (\<lambda>x. x \<noteq> s) document_order)"

text \<open>
  The order in which conflicts are resolved: by position for one source, a descendant
  before its ancestor, otherwise the deeper source first and document order at equal
  depth.
\<close>

definition transitionStateEntryLessThan :: "transition \<Rightarrow> transition \<Rightarrow> bool" where
  "transitionStateEntryLessThan t1 t2 =
     (let s1 = sourceState t1; s2 = sourceState t2 in
      if s1 = s2 then position t1 < position t2
      else if isDescendant s1 s2 then True
      else if isDescendant s2 s1 then False
      else if depth s1 = depth s2 then indexOf s1 < indexOf s2
      else depth s1 > depth s2)"

fun insertTransition :: "transition \<Rightarrow> transition list \<Rightarrow> transition list" where
  "insertTransition t [] = [t]"
| "insertTransition t (u # us) =
     (if transitionStateEntryLessThan t u then t # u # us else u # insertTransition t us)"

definition sortTransitions :: "transition list \<Rightarrow> transition list" where
  "sortTransitions ts = foldr insertTransition ts []"

text \<open>
  One transition \<open>t1\<close> against those kept so far: a kept transition whose exit set meets
  that of \<open>t1\<close> is dropped when the source of \<open>t1\<close> is below its source, and preempts
  \<open>t1\<close> otherwise; so does a second copy of \<open>t1\<close> itself.
\<close>

fun preempt :: "state set \<Rightarrow> transition \<Rightarrow> transition list \<Rightarrow> transition list \<times> bool" where
  "preempt c t1 [] = ([], False)"
| "preempt c t1 (t2 # rest) =
     (if t1 = t2 then (t2 # rest, True)
      else if \<not> (\<exists>s \<in> set (computeExitSet_Unordered c t1). s \<in> set (computeExitSet_Unordered c t2))
      then (let (kept, preempted) = preempt c t1 rest in (t2 # kept, preempted))
      else if isDescendant (sourceState t1) (sourceState t2) then preempt c t1 rest
      else (t2 # rest, True))"

fun filterTransitions :: "state set \<Rightarrow> transition list \<Rightarrow> transition list \<Rightarrow> transition list" where
  "filterTransitions c filtered [] = filtered"
| "filterTransitions c filtered (t1 # ts) =
     (let (kept, preempted) = preempt c t1 filtered
      in filterTransitions c (if preempted then kept else kept @ [t1]) ts)"

definition removeConflictingTransitions :: "state set \<Rightarrow> transition list \<Rightarrow> transition list" where
  "removeConflictingTransitions c ts =
     (if length ts < 2 then ts else filterTransitions c [] (sortTransitions ts))"

definition selectTransitions :: "mods \<Rightarrow> sm_event \<Rightarrow> plugin \<Rightarrow> error + transition list" where
  "selectTransitions m e p =
     (case enabledTransitions m e p
             (filter (\<lambda>s. s \<in> active p \<and> isAtomic s) document_order) of
        Inl err \<Rightarrow> Inl err
      | Inr ts \<Rightarrow> Inr (removeConflictingTransitions (active p) ts))"

definition containsDescendantOf :: "state list \<Rightarrow> state \<Rightarrow> bool" where
  "containsDescendantOf states node = (\<exists>s \<in> set states. isDescendant s node)"

text \<open>
  A state is entered with its initial state when it is compound, and with each child
  that has no descendant among the states to enter yet when it is parallel. Every
  compound state of this machine has an initial state, and it is one of its children.
\<close>

function addDescendantStatesToEnter :: "state \<Rightarrow> state list \<Rightarrow> state list" where
  "addDescendantStatesToEnter s statesToEnter =
     (if isCompound s then
        (case initialState s of
           None \<Rightarrow> s # statesToEnter
         | Some i \<Rightarrow> addDescendantStatesToEnter i (s # statesToEnter))
      else if isParallel s then
        fold (\<lambda>child acc. if containsDescendantOf acc child then acc
                           else addDescendantStatesToEnter child acc)
             (childStates s) (s # statesToEnter)
      else s # statesToEnter)"
  by pat_completeness auto
termination
proof (relation "measure (\<lambda>(s, acc). 4 - depth s)", goal_cases)
  case 1
  show ?case by simp
next
  case (2 s acc i)
  then show ?case by (cases s) (auto simp: isCompound_def)
next
  case (3 s acc child a)
  then have "parentState child = Some s" by (simp add: childStates_def)
  then show ?case by (cases child) auto
qed

declare addDescendantStatesToEnter.simps [simp del]

definition addAncestorStatesToEnter :: "state \<Rightarrow> state option \<Rightarrow> state list \<Rightarrow> state list" where
  "addAncestorStatesToEnter s domain statesToEnter =
     fold (\<lambda>anc acc.
             if isParallel anc then
               fold (\<lambda>child acc'. if containsDescendantOf acc' child then acc'
                                   else addDescendantStatesToEnter child acc')
                    (childStates anc) (anc # acc)
             else anc # acc)
          (takeWhile (\<lambda>a. Some a \<noteq> domain) (getProperAncestors s)) statesToEnter"

definition computeEntrySet :: "transition list \<Rightarrow> state list" where
  "computeEntrySet ts =
     (let statesToEnter =
            fold (\<lambda>t acc. addAncestorStatesToEnter (targetState t) (getTransitionDomain t)
                             (addDescendantStatesToEnter (targetState t) acc)) ts []
      in filter (\<lambda>s. s \<in> set statesToEnter) document_order)"

definition computeExitSet :: "state set \<Rightarrow> transition list \<Rightarrow> state list" where
  "computeExitSet configuration ts =
     filter (\<lambda>s. \<exists>t \<in> set ts. s \<in> set (computeExitSet_Unordered configuration t))
       (rev document_order)"

text \<open>
  A state is no longer active when its \<^verbatim>\<open>exited\<close> signal is emitted, and becomes active
  after its \<^verbatim>\<open>entered\<close> signal has been emitted.
\<close>

definition exitState :: "state \<Rightarrow> plugin \<Rightarrow> plugin" where
  "exitState s p = exited s (p\<lparr>active := active p - {s}\<rparr>)"

definition enterState :: "state \<Rightarrow> plugin \<Rightarrow> error + plugin" where
  "enterState s p =
     (case entered s p of
        Inl err \<Rightarrow> Inl err
      | Inr p' \<Rightarrow> Inr (p'\<lparr>active := insert s (active p')\<rparr>))"

fun enterStates :: "state list \<Rightarrow> plugin \<Rightarrow> error + plugin" where
  "enterStates [] p = Inr p"
| "enterStates (s # ss) p =
     (case enterState s p of Inl err \<Rightarrow> Inl err | Inr p' \<Rightarrow> enterStates ss p')"

definition microstep :: "transition list \<Rightarrow> plugin \<Rightarrow> error + plugin" where
  "microstep ts p =
     enterStates (computeEntrySet ts) (fold exitState (computeExitSet (active p) ts) p)"

text \<open>The machine processes one signal or event to completion.\<close>

definition machine_step :: "mods \<Rightarrow> sm_event \<Rightarrow> plugin \<Rightarrow> error + plugin" where
  "machine_step m e p =
     (case selectTransitions m e p of
        Inl err \<Rightarrow> Inl err
      | Inr ts \<Rightarrow> if ts = [] then Inr p else microstep ts p)"

text \<open>Starting the machine enters \<open>s_top\<close>, the initial state of the machine.\<close>

definition machine_start :: "plugin \<Rightarrow> error + plugin" where
  "machine_start p =
     enterStates (filter (\<lambda>s. s \<in> set (addDescendantStatesToEnter s_top [])) document_order) p"


subsection \<open>The slots of the plugin\<close>

text \<open>A query as \<^verbatim>\<open>query(text)\<close> returns it: not yet run, with no rows.\<close>

definition new_query :: "string \<Rightarrow> query" where
  "new_query text =
     \<lparr>query_string = text, started = False, canceled = False, isFinished = False,
      matches = [], fallbacks = []\<rparr>"

text \<open>
  The slot connected to \<^verbatim>\<open>textChanged\<close> in the constructor, in two parts: what it does
  to the current query, and the construction, wiring and start of the new one.
\<close>

definition cancel_and_disconnect :: "plugin \<Rightarrow> plugin" where
  "cancel_and_disconnect p =
     (case current_query p of
        None \<Rightarrow> p
      | Some q \<Rightarrow>
          p\<lparr>queries := (queries p)(q := (queries p q)\<lparr>canceled := True\<rparr>),
            connections :=
              removeAll (q, Matches_rowsInserted) (removeAll (q, Query_finished) (connections p))\<rparr>)"

definition start_query :: "string \<Rightarrow> plugin \<Rightarrow> plugin" where
  "start_query text p =
     (let q = next_query p in
      p\<lparr>queries := (queries p)(q := (new_query text)\<lparr>started := True\<rparr>),
        next_query := Suc q,
        current_query := Some q,
        connections := connections p @ [(q, Query_finished), (q, Matches_rowsInserted)],
        queries_list := queries_list p @ [q],
        input_hint := (if text = [] then Synopsis q else NoHint)\<rparr>)"

definition on_textChanged :: "string \<Rightarrow> plugin \<Rightarrow> plugin" where
  "on_textChanged text p = start_query text (cancel_and_disconnect p)"

text \<open>Emitting \<^verbatim>\<open>textChanged\<close>: the slot of the constructor, then the machine.\<close>

definition emit_textChanged :: "mods \<Rightarrow> string \<Rightarrow> plugin \<Rightarrow> error + plugin" where
  "emit_textChanged m text p = machine_step m Sig_textChanged (on_textChanged text p)"

text \<open>
  The \<^verbatim>\<open>Hide\<close> branch of \<^verbatim>\<open>eventFilter\<close>. Clearing the input line emits \<^verbatim>\<open>textChanged\<close>
  when the text was not empty. The history is the sequence of the texts given to
  \<^verbatim>\<open>history_.add\<close>.
\<close>

definition hideEvent :: "mods \<Rightarrow> plugin \<Rightarrow> error + plugin" where
  "hideEvent m p =
     (case (if clearOnHide_flag p \<and> input_text p \<noteq> []
            then emit_textChanged m [] (p\<lparr>input_text := []\<rparr>)
            else Inr p) of
        Inl err \<Rightarrow> Inl err
      | Inr p' \<Rightarrow>
          Inr (p'\<lparr>history := history p' @ [input_text p'],
                   queries_list :=
                     filter (\<lambda>q. Some q = current_query p' \<or> Some q = displayed_query p')
                       (queries_list p')\<rparr>))"

definition window_hide :: "mods \<Rightarrow> plugin \<Rightarrow> error + plugin" where
  "window_hide m p =
     (if window_visible p then hideEvent m (p\<lparr>window_visible := False\<rparr>) else Inr p)"

text \<open>The \<^verbatim>\<open>Show\<close> branch of \<^verbatim>\<open>eventFilter\<close>, without the geometry.\<close>

definition window_show :: "mods \<Rightarrow> plugin \<Rightarrow> error + plugin" where
  "window_show m p =
     (if window_visible p then Inr p
      else emit_textChanged m (input_text p) (p\<lparr>window_visible := True\<rparr>))"

text \<open>
  The closure \<^verbatim>\<open>activate\<close>; \<open>ctrl\<close> is what \<^verbatim>\<open>QApplication::keyboardModifiers()\<close> says
  of the Control modifier.
\<close>

definition activate :: "mods \<Rightarrow> bool \<Rightarrow> nat \<Rightarrow> nat \<Rightarrow> plugin \<Rightarrow> error + plugin" where
  "activate m ctrl i a p =
     (case (if s_results_model_matches \<in> active p then
              (case current_query p of
                 None \<Rightarrow> Inl NullQuery
               | Some q \<Rightarrow> Inr (p\<lparr>calls := calls p @ [ActivateMatch q i a]\<rparr>))
            else if s_results_model_fallbacks \<in> active p then
              (case current_query p of
                 None \<Rightarrow> Inl NullQuery
               | Some q \<Rightarrow> Inr (p\<lparr>calls := calls p @ [ActivateFallback q i a]\<rparr>))
            else Inr (p\<lparr>calls := calls p @ [WARN]\<rparr>)) of
        Inl err \<Rightarrow> Inl err
      | Inr p1 \<Rightarrow>
          let p2 = p1\<lparr>history := history p1 @ [input_text p1]\<rparr> in
          if \<not> ctrl then window_hide m p2
          else emit_textChanged m (input_text p2) p2)"

text \<open>The row of an index as \<^verbatim>\<open>uint\<close>: an invalid index has row \<open>-1\<close>.\<close>

definition row_uint :: "nat option \<Rightarrow> nat" where
  "row_uint i = (case i of None \<Rightarrow> 4294967295 | Some r \<Rightarrow> r)"

subsection \<open>The plugin in its environment\<close>

text \<open>
  What happens to the plugin: the input text changes, the timer fires, a query
  finishes or gets rows, a modifier key is pressed or released on the input line, the
  pointer enters or leaves the settings button or the input line, the user moves the
  current row, activates a row of the results or of the actions, the frontend is shown
  or hidden, the setting changes.
\<close>

datatype event =
    TextChanged string
  | Timeout
  | QueryFinished nat
  | MatchesInserted nat "item list"
  | FallbacksInserted nat "item list"
  | KeyPress Mod
  | KeyRelease Mod
  | ButtonEnter
  | ButtonLeave
  | InputUnderMouse bool
  | CurrentRow nat
  | ResultsActivated nat bool
  | ActionsActivated nat bool
  | SetVisible bool
  | SetShowFallbacksOnEmptyMatches bool

definition query_finished :: "mods \<Rightarrow> nat \<Rightarrow> plugin \<Rightarrow> error + plugin" where
  "query_finished m q p =
     (let p' = p\<lparr>queries := (queries p)(q := (queries p q)\<lparr>isFinished := True\<rparr>)\<rparr> in
      if (q, Query_finished) \<in> set (connections p')
      then machine_step m Sig_queryFinsished p' else Inr p')"

definition matches_inserted :: "mods \<Rightarrow> nat \<Rightarrow> item list \<Rightarrow> plugin \<Rightarrow> error + plugin" where
  "matches_inserted m q rows p =
     (let p' = p\<lparr>queries := (queries p)(q := (queries p q)\<lparr>matches := matches (queries p q) @ rows\<rparr>)\<rparr> in
      if rows \<noteq> [] \<and> (q, Matches_rowsInserted) \<in> set (connections p')
      then machine_step m Sig_resultsReady p' else Inr p')"

definition fallbacks_inserted :: "nat \<Rightarrow> item list \<Rightarrow> plugin \<Rightarrow> plugin" where
  "fallbacks_inserted q rows p =
     p\<lparr>queries := (queries p)(q := (queries p q)\<lparr>fallbacks := fallbacks (queries p q) @ rows\<rparr>)\<rparr>"

text \<open>
  The user moves the current row of the results. The selection model of a view bound
  by the handler of \<open>s_results_model_matches\<close> is connected to the slot that sets the
  input hint.
\<close>

definition current_row :: "nat \<Rightarrow> plugin \<Rightarrow> plugin" where
  "current_row r p =
     (case results_model p of
        None \<Rightarrow> p
      | Some model \<Rightarrow>
          if r < rowCount (queries p) model \<and> results_current p \<noteq> Some r then
            p\<lparr>results_current := Some r,
              input_hint := (case model of MatchesOf q \<Rightarrow> InputAction model r | _ \<Rightarrow> input_hint p)\<rparr>
          else p)"

fun step :: "mods \<Rightarrow> event \<Rightarrow> plugin \<Rightarrow> error + plugin" where
  "step m (TextChanged text) p = emit_textChanged m text (p\<lparr>input_text := text\<rparr>)"
| "step m Timeout p =
     (if timer_active p then machine_step m Sig_timeout (p\<lparr>timer_active := False\<rparr>) else Inr p)"
| "step m (QueryFinished q) p = query_finished m q p"
| "step m (MatchesInserted q rows) p = matches_inserted m q rows p"
| "step m (FallbacksInserted q rows) p = Inr (fallbacks_inserted q rows p)"
| "step m (KeyPress k) p = machine_step m (Ev_KeyPress (mods_keys k)) p"
| "step m (KeyRelease k) p = machine_step m (Ev_KeyRelease (mods_keys k)) p"
| "step m ButtonEnter p = machine_step m Ev_Enter p"
| "step m ButtonLeave p = machine_step m Ev_Leave p"
| "step m (InputUnderMouse b) p = Inr (p\<lparr>input_underMouse := b\<rparr>)"
| "step m (CurrentRow r) p = Inr (current_row r p)"
| "step m (ResultsActivated row ctrl) p = activate m ctrl row 0 p"
| "step m (ActionsActivated row ctrl) p = activate m ctrl (row_uint (results_current p)) row p"
| "step m (SetVisible visible) p = (if visible then window_show m p else window_hide m p)"
| "step m (SetShowFallbacksOnEmptyMatches b) p = Inr (p\<lparr>show_fallbacks_on_empty_query := b\<rparr>)"

fun run :: "mods \<Rightarrow> event list \<Rightarrow> plugin \<Rightarrow> error + plugin" where
  "run m [] p = Inr p"
| "run m (e # es) p = (case step m e p of Inl err \<Rightarrow> Inl err | Inr p' \<Rightarrow> run m es p')"

text \<open>
  The plugin when the constructor returns, given the two settings it reads that matter
  here, and the plugin once the machine has started.
\<close>

definition constructed :: "bool \<Rightarrow> bool \<Rightarrow> plugin" where
  "constructed showFallbacks clearOnHide =
     \<lparr>queries = (\<lambda>q. new_query []), next_query = 0, current_query = None,
      displayed_query = None, queries_list = [], connections = [],
      show_fallbacks_on_empty_query = showFallbacks, clearOnHide_flag = clearOnHide,
      active = {}, timer_active = False, window_visible = False, input_text = [],
      input_hint = NoHint, input_underMouse = False, input_filters = [W_plugin],
      results_model = None, results_current = None, results_visible = False,
      results_enabled = True, actions_model = None, actions_current = None,
      actions_visible = False, opacity_direction = Backward, history = [], calls = []\<rparr>"

definition launch :: "mods \<Rightarrow> bool \<Rightarrow> bool \<Rightarrow> event list \<Rightarrow> error + plugin" where
  "launch m showFallbacks clearOnHide evs =
     (case machine_start (constructed showFallbacks clearOnHide) of
        Inl err \<Rightarrow> Inl err
      | Inr p \<Rightarrow> run m evs p)"


subsection \<open>Configurations\<close>

text \<open>
  A set of states is a legal configuration when it holds \<open>s_top\<close>, the parent of each
  of its states, every child of each of its parallel states and exactly one child of
  each of its other states that have children.
\<close>

definition exactly_one :: "state set \<Rightarrow> state list \<Rightarrow> bool" where
  "exactly_one c xs = (length (filter (\<lambda>s. s \<in> c) xs) = 1)"

definition legal :: "state set \<Rightarrow> bool" where
  "legal c =
     (s_top \<in> c \<and>
      (\<forall>s \<in> set document_order. s \<in> c \<longrightarrow>
         (case parentState s of None \<Rightarrow> True | Some a \<Rightarrow> a \<in> c) \<and>
         (if isParallel s then \<forall>k \<in> set (childStates s). k \<in> c
          else childStates s = [] \<or> exactly_one c (childStates s))))"

text \<open>The twelve legal configurations, each in document order.\<close>

definition configurations :: "state list list" where
  "configurations =
     concat (map (\<lambda>b. map (\<lambda>r. [s_top, s_button, b, s_results] @ r)
       ([s_results_hidden] # [s_results_postpone] #
        concat (map (\<lambda>x. map (\<lambda>a.
          [s_results_visible, s_results_model, x, s_results_actions, a])
            [s_results_actions_hidden, s_results_actions_visible])
          [s_results_model_matches, s_results_model_fallbacks])))
       [s_button_hidden, s_button_shown])"

definition has_conf :: "state set \<Rightarrow> state list \<Rightarrow> bool" where
  "has_conf c xs = (\<forall>s \<in> set document_order. (s \<in> c) = (s \<in> set xs))"


subsection \<open>What holds of every plugin the events can produce\<close>

fun owner :: "model_ref \<Rightarrow> nat" where
  "owner (MatchesOf q) = q"
| "owner (FallbacksOf q) = q"
| "owner (MatchActions q r) = q"
| "owner (FallbackActions q r) = q"

text \<open>
  What the machine leaves alone when it processes an event: the queries, the settings,
  the input text, the history, the activations and the visibility of the window. It
  connects nothing, and binds the results view to models of the current query only.
\<close>

definition machine_frame :: "plugin \<Rightarrow> plugin \<Rightarrow> bool" where
  "machine_frame p p' =
     (queries p' = queries p \<and> next_query p' = next_query p \<and>
      current_query p' = current_query p \<and> queries_list p' = queries_list p \<and>
      show_fallbacks_on_empty_query p' = show_fallbacks_on_empty_query p \<and>
      clearOnHide_flag p' = clearOnHide_flag p \<and> window_visible p' = window_visible p \<and>
      input_text p' = input_text p \<and> input_underMouse p' = input_underMouse p \<and>
      history p' = history p \<and> calls p' = calls p \<and>
      set (connections p') \<subseteq> set (connections p) \<and>
      (\<forall>model. results_model p' = Some model \<longrightarrow>
         results_model p = Some model \<or> current_query p = Some (owner model)))"

text \<open>
  The invariant of the plugin: the configuration is legal; only the current query is
  connected; the identities in use are below the next one; while the matches are
  shown their insertions are not connected; the actions are on screen only in
  \<open>s_results_actions_visible\<close>; results are on screen only if there is a current query.
\<close>

definition invariant :: "plugin \<Rightarrow> bool" where
  "invariant p =
     (legal (active p) \<and>
      (\<forall>q sg. (q, sg) \<in> set (connections p) \<longrightarrow> current_query p = Some q) \<and>
      (\<forall>q. current_query p = Some q \<longrightarrow> q < next_query p) \<and>
      (\<forall>model. results_model p = Some model \<longrightarrow> owner model < next_query p) \<and>
      (s_results_model_matches \<in> active p \<longrightarrow>
         (\<forall>q. current_query p = Some q \<longrightarrow> (q, Matches_rowsInserted) \<notin> set (connections p))) \<and>
      (actions_visible p \<longrightarrow> s_results_actions_visible \<in> active p) \<and>
      (s_results_visible \<in> active p \<longrightarrow> current_query p \<noteq> None))"


text \<open>
  From one plugin to a later one, no query that existed is connected again, and a
  current query stays defined.
\<close>

definition no_reconnect :: "plugin \<Rightarrow> plugin \<Rightarrow> bool" where
  "no_reconnect p p' =
     (next_query p \<le> next_query p' \<and>
      (\<forall>q sg. q < next_query p \<longrightarrow> (q, sg) \<in> set (connections p') \<longrightarrow>
         (q, sg) \<in> set (connections p)) \<and>
      (current_query p \<noteq> None \<longrightarrow> current_query p' \<noteq> None))"


text \<open>
  What is looked at after a run: the active states in document order, the matches and
  the fallbacks of a query, and the model and the current row of the results.
\<close>

definition observed ::
  "nat \<Rightarrow> error + plugin \<Rightarrow>
   error + state list \<times> item list \<times> item list \<times> model_ref option \<times> nat option" where
  "observed q r =
     map_sum id (\<lambda>p. (filter (\<lambda>s. s \<in> active p) document_order, matches (queries p q),
                        fallbacks (queries p q), results_model p, results_current p)) r"


section \<open>Properties\<close>

subsection \<open>The tree, evaluated\<close>

lemma getProperAncestors_eval [simp]:
  "getProperAncestors s_top = []"
  "getProperAncestors s_button = [s_top]"
  "getProperAncestors s_button_hidden = [s_button, s_top]"
  "getProperAncestors s_button_shown = [s_button, s_top]"
  "getProperAncestors s_results = [s_top]"
  "getProperAncestors s_results_hidden = [s_results, s_top]"
  "getProperAncestors s_results_postpone = [s_results, s_top]"
  "getProperAncestors s_results_visible = [s_results, s_top]"
  "getProperAncestors s_results_model = [s_results_visible, s_results, s_top]"
  "getProperAncestors s_results_model_matches = [s_results_model, s_results_visible, s_results, s_top]"
  "getProperAncestors s_results_model_fallbacks = [s_results_model, s_results_visible, s_results, s_top]"
  "getProperAncestors s_results_actions = [s_results_visible, s_results, s_top]"
  "getProperAncestors s_results_actions_hidden = [s_results_actions, s_results_visible, s_results, s_top]"
  "getProperAncestors s_results_actions_visible = [s_results_actions, s_results_visible, s_results, s_top]"
  by (simp_all add: getProperAncestors.simps)

lemma childStates_eval [simp]:
  "childStates s_top = [s_button, s_results]"
  "childStates s_button = [s_button_hidden, s_button_shown]"
  "childStates s_button_hidden = []"
  "childStates s_button_shown = []"
  "childStates s_results = [s_results_hidden, s_results_postpone, s_results_visible]"
  "childStates s_results_hidden = []"
  "childStates s_results_postpone = []"
  "childStates s_results_visible = [s_results_model, s_results_actions]"
  "childStates s_results_model = [s_results_model_matches, s_results_model_fallbacks]"
  "childStates s_results_model_matches = []"
  "childStates s_results_model_fallbacks = []"
  "childStates s_results_actions = [s_results_actions_hidden, s_results_actions_visible]"
  "childStates s_results_actions_hidden = []"
  "childStates s_results_actions_visible = []"
  by (simp_all add: childStates_def document_order_def)

lemmas tree_defs = isParallel_def isCompound_def isAtomic_def isDescendant_def
  containsDescendantOf_def below_def indexOf_def document_order_def

lemma addDescendantStatesToEnter_eval [simp]:
  "addDescendantStatesToEnter s_button_hidden acc = s_button_hidden # acc"
  "addDescendantStatesToEnter s_button_shown acc = s_button_shown # acc"
  "addDescendantStatesToEnter s_results_hidden acc = s_results_hidden # acc"
  "addDescendantStatesToEnter s_results_postpone acc = s_results_postpone # acc"
  "addDescendantStatesToEnter s_results_model_matches acc = s_results_model_matches # acc"
  "addDescendantStatesToEnter s_results_model_fallbacks acc = s_results_model_fallbacks # acc"
  "addDescendantStatesToEnter s_results_actions_hidden acc = s_results_actions_hidden # acc"
  "addDescendantStatesToEnter s_results_actions_visible acc = s_results_actions_visible # acc"
  "addDescendantStatesToEnter s_results_model acc = s_results_model_matches # s_results_model # acc"
  "addDescendantStatesToEnter s_results_actions acc = s_results_actions_hidden # s_results_actions # acc"
  by (simp_all add: addDescendantStatesToEnter.simps tree_defs)

lemmas test_defs = QSignalTransition_def QEventTransition_def QKeyEventTransition_def
  CondSignalTransition_def CondEventTransition_def CondKeyEventTransition_def
  no_fallbacks_to_show_def fallbacks_to_show_def have_fallbacks_def no_matches_def
  have_matches_def input_not_underMouse_def current_query_isFinished_def with_current_query_def

lemmas engine_defs = machine_step_def selectTransitions_def removeConflictingTransitions_def
  sortTransitions_def transitionStateEntryLessThan_def
  microstep_def computeEntrySet_def computeExitSet_def computeExitSet_Unordered_def
  getTransitionDomain_def findLCCA_def addAncestorStatesToEnter_def exitState_def enterState_def Let_def

lemmas handler_defs = entered_results_model_matches_def entered_results_model_fallbacks_def
  entered_results_actions_visible_def show_actions_def



subsection \<open>The legal configurations\<close>

lemma configurations_eval:
  "configurations =
    [[s_top, s_button, s_button_hidden, s_results, s_results_hidden],
     [s_top, s_button, s_button_hidden, s_results, s_results_postpone],
     [s_top, s_button, s_button_hidden, s_results, s_results_visible, s_results_model,
      s_results_model_matches, s_results_actions, s_results_actions_hidden],
     [s_top, s_button, s_button_hidden, s_results, s_results_visible, s_results_model,
      s_results_model_matches, s_results_actions, s_results_actions_visible],
     [s_top, s_button, s_button_hidden, s_results, s_results_visible, s_results_model,
      s_results_model_fallbacks, s_results_actions, s_results_actions_hidden],
     [s_top, s_button, s_button_hidden, s_results, s_results_visible, s_results_model,
      s_results_model_fallbacks, s_results_actions, s_results_actions_visible],
     [s_top, s_button, s_button_shown, s_results, s_results_hidden],
     [s_top, s_button, s_button_shown, s_results, s_results_postpone],
     [s_top, s_button, s_button_shown, s_results, s_results_visible, s_results_model,
      s_results_model_matches, s_results_actions, s_results_actions_hidden],
     [s_top, s_button, s_button_shown, s_results, s_results_visible, s_results_model,
      s_results_model_matches, s_results_actions, s_results_actions_visible],
     [s_top, s_button, s_button_shown, s_results, s_results_visible, s_results_model,
      s_results_model_fallbacks, s_results_actions, s_results_actions_hidden],
     [s_top, s_button, s_button_shown, s_results, s_results_visible, s_results_model,
      s_results_model_fallbacks, s_results_actions, s_results_actions_visible]]"
  by (simp add: configurations_def)


lemma exactly_one2: "exactly_one c [a, b] = ((a \<in> c) \<noteq> (b \<in> c))"
  by (simp add: exactly_one_def)

lemma exactly_one3:
  "exactly_one c [a, b, d] =
     ((a \<in> c \<and> b \<notin> c \<and> d \<notin> c) \<or> (a \<notin> c \<and> b \<in> c \<and> d \<notin> c) \<or> (a \<notin> c \<and> b \<notin> c \<and> d \<in> c))"
  by (simp add: exactly_one_def)

lemma legal_unfold:
  "legal c =
    (s_top \<in> c \<and> s_button \<in> c \<and> s_results \<in> c \<and>
     ((s_button_hidden \<in> c) \<noteq> (s_button_shown \<in> c)) \<and>
     exactly_one c [s_results_hidden, s_results_postpone, s_results_visible] \<and>
     (s_results_model \<in> c) = (s_results_visible \<in> c) \<and>
     (s_results_actions \<in> c) = (s_results_visible \<in> c) \<and>
     (if s_results_visible \<in> c
      then ((s_results_model_matches \<in> c) \<noteq> (s_results_model_fallbacks \<in> c)) \<and>
           ((s_results_actions_hidden \<in> c) \<noteq> (s_results_actions_visible \<in> c))
      else s_results_model_matches \<notin> c \<and> s_results_model_fallbacks \<notin> c \<and>
           s_results_actions_hidden \<notin> c \<and> s_results_actions_visible \<notin> c))"
  unfolding legal_def
  apply (simp add: tree_defs exactly_one2 del: exactly_one3)
  apply (simp only: exactly_one3)
  apply blast
  done

lemma legal_cases: "legal c \<Longrightarrow> \<exists>xs \<in> set configurations. has_conf c xs"
  unfolding configurations_eval legal_unfold exactly_one3
  apply (simp add: has_conf_def document_order_def)
  apply (cases "s_button_hidden \<in> c"; cases "s_results_visible \<in> c"; cases "s_results_hidden \<in> c";
         cases "s_results_model_matches \<in> c"; cases "s_results_actions_hidden \<in> c"; simp)
  done


subsection \<open>One step of the machine from a legal configuration\<close>

lemma machine_step_conf:
  assumes "xs \<in> set configurations" "has_conf (active p) xs"
  shows "case machine_step m e p of
           Inl x \<Rightarrow> x = NullQuery \<and> current_query p = None
         | Inr p' \<Rightarrow>
             legal (active p') \<and>
             (e = Sig_textChanged \<longrightarrow> s_results_visible \<notin> active p') \<and>
             (s_results_model_matches \<in> active p' \<longrightarrow>
                s_results_model_matches \<in> active p \<or>
                (\<forall>q. current_query p = Some q \<longrightarrow> (q, Matches_rowsInserted) \<notin> set (connections p'))) \<and>
             ((actions_visible p \<longrightarrow> s_results_actions_visible \<in> active p) \<longrightarrow>
              (actions_visible p' \<longrightarrow> s_results_actions_visible \<in> active p')) \<and>
             (s_results_visible \<in> active p' \<longrightarrow>
                s_results_visible \<in> active p \<or> current_query p \<noteq> None) \<and>
             (e = Sig_textChanged \<longrightarrow> connections p' = connections p \<and> results_model p' = results_model p)"
  using assms unfolding configurations_eval
  apply simp
  apply (elim disjE)
  apply (simp_all add: has_conf_def document_order_def)
  apply (cases e; simp add: engine_defs tree_defs test_defs handler_defs legal_unfold exactly_one3 split: option.split bool.split)+
  done


subsection \<open>What the machine leaves alone\<close>

lemma machine_frame_refl: "machine_frame p p"
  by (simp add: machine_frame_def)

lemma machine_frame_trans: "machine_frame p p' \<Longrightarrow> machine_frame p' p'' \<Longrightarrow> machine_frame p p''"
  unfolding machine_frame_def by (elim conjE, intro conjI) (simp_all, blast+)

lemma exited_frame: "machine_frame p (exited s p)"
  by (cases s) (simp_all add: machine_frame_def)

lemma exitState_frame: "machine_frame p (exitState s p)"
  by (cases s) (simp_all add: machine_frame_def exitState_def)

lemma fold_exitState_frame: "machine_frame p (fold exitState ss p)"
proof (induction ss arbitrary: p)
  case Nil
  show ?case by (simp add: machine_frame_refl)
next
  case (Cons s ss)
  show ?case using machine_frame_trans [OF exitState_frame Cons.IH] by simp
qed

lemma enterState_frame: "enterState s p = Inr p' \<Longrightarrow> machine_frame p p'"
  by (cases s)
     (auto simp: machine_frame_def enterState_def handler_defs Let_def
           split: option.splits if_splits)

lemma enterStates_frame: "enterStates ss p = Inr p' \<Longrightarrow> machine_frame p p'"
proof (induction ss arbitrary: p)
  case Nil
  then show ?case by (simp add: machine_frame_refl)
next
  case (Cons s ss)
  then show ?case
    by (auto split: sum.splits intro: machine_frame_trans enterState_frame)
qed

lemma machine_step_frame: "machine_step m e p = Inr p' \<Longrightarrow> machine_frame p p'"
  unfolding machine_step_def microstep_def
  by (auto split: sum.splits if_splits
           intro: machine_frame_refl machine_frame_trans [OF fold_exitState_frame enterStates_frame])

lemma machine_step_invariant:
  assumes "legal (active p)"
  shows "case machine_step m e p of
           Inl x \<Rightarrow> x = NullQuery \<and> current_query p = None
         | Inr p' \<Rightarrow>
             machine_frame p p' \<and>
             legal (active p') \<and>
             (e = Sig_textChanged \<longrightarrow> s_results_visible \<notin> active p') \<and>
             (s_results_model_matches \<in> active p' \<longrightarrow>
                s_results_model_matches \<in> active p \<or>
                (\<forall>q. current_query p = Some q \<longrightarrow> (q, Matches_rowsInserted) \<notin> set (connections p'))) \<and>
             ((actions_visible p \<longrightarrow> s_results_actions_visible \<in> active p) \<longrightarrow>
              (actions_visible p' \<longrightarrow> s_results_actions_visible \<in> active p')) \<and>
             (s_results_visible \<in> active p' \<longrightarrow>
                s_results_visible \<in> active p \<or> current_query p \<noteq> None) \<and>
             (e = Sig_textChanged \<longrightarrow> connections p' = connections p \<and> results_model p' = results_model p)"
proof -
  from legal_cases [OF assms] obtain xs
    where xs: "xs \<in> set configurations" "has_conf (active p) xs" by blast
  show ?thesis
    using machine_step_conf [OF xs, where m=m and e=e] machine_step_frame [of m e p]
    by (cases "machine_step m e p") simp_all
qed


subsection \<open>The invariant is kept\<close>

lemma legal_matches_visible: "legal c \<Longrightarrow> s_results_model_matches \<in> c \<Longrightarrow> s_results_visible \<in> c"
  unfolding legal_unfold by (simp split: if_splits)

lemma machine_step_preserves:
  assumes leg: "legal (active p)"
    and conn: "\<forall>q sg. (q, sg) \<in> set (connections p) \<longrightarrow> current_query p = Some q"
    and cur: "\<forall>q. current_query p = Some q \<longrightarrow> q < next_query p"
    and own: "\<forall>model. results_model p = Some model \<longrightarrow> owner model < next_query p"
    and act: "actions_visible p \<longrightarrow> s_results_actions_visible \<in> active p"
    and vis: "s_results_visible \<in> active p \<longrightarrow> current_query p \<noteq> None"
    and mat: "e = Sig_textChanged \<or>
              (s_results_model_matches \<in> active p \<longrightarrow>
                (\<forall>q. current_query p = Some q \<longrightarrow> (q, Matches_rowsInserted) \<notin> set (connections p)))"
  shows "case machine_step m e p of
           Inl x \<Rightarrow> x = NullQuery \<and> current_query p = None
         | Inr p' \<Rightarrow>
             invariant p' \<and> machine_frame p p' \<and>
             (e = Sig_textChanged \<longrightarrow>
                connections p' = connections p \<and> results_model p' = results_model p \<and> s_results_visible \<notin> active p')"
proof (cases "machine_step m e p")
  case (Inl x)
  then show ?thesis using machine_step_invariant [OF leg, where m=m and e=e] by simp
next
  case (Inr p')
  with machine_step_invariant [OF leg, where m=m and e=e]
  have fr: "machine_frame p p'" and leg': "legal (active p')"
    and tc: "e = Sig_textChanged \<longrightarrow> s_results_visible \<notin> active p'"
    and m': "s_results_model_matches \<in> active p' \<longrightarrow>
                s_results_model_matches \<in> active p \<or>
                (\<forall>q. current_query p = Some q \<longrightarrow> (q, Matches_rowsInserted) \<notin> set (connections p'))"
    and a': "actions_visible p' \<longrightarrow> s_results_actions_visible \<in> active p'"
    and v': "s_results_visible \<in> active p' \<longrightarrow> s_results_visible \<in> active p \<or> current_query p \<noteq> None"
    and c': "e = Sig_textChanged \<longrightarrow> connections p' = connections p \<and> results_model p' = results_model p"
    using act by simp_all
  from fr have eqs: "next_query p' = next_query p" "current_query p' = current_query p"
    and sub: "set (connections p') \<subseteq> set (connections p)"
    and rm: "\<forall>model. results_model p' = Some model \<longrightarrow>
         results_model p = Some model \<or> current_query p = Some (owner model)"
    by (simp_all add: machine_frame_def)
  have i2: "\<forall>q sg. (q, sg) \<in> set (connections p') \<longrightarrow> current_query p' = Some q"
    using conn sub eqs by auto
  have i3: "\<forall>q. current_query p' = Some q \<longrightarrow> q < next_query p'"
    using cur eqs by simp
  have i4: "\<forall>model. results_model p' = Some model \<longrightarrow> owner model < next_query p'"
    using own rm cur eqs by auto
  have i5: "s_results_model_matches \<in> active p' \<longrightarrow>
         (\<forall>q. current_query p' = Some q \<longrightarrow> (q, Matches_rowsInserted) \<notin> set (connections p'))"
  proof (cases "e = Sig_textChanged")
    case True
    then show ?thesis using tc legal_matches_visible [OF leg'] by blast
  next
    case False
    then show ?thesis using mat m' sub eqs by auto
  qed
  have i7: "s_results_visible \<in> active p' \<longrightarrow> current_query p' \<noteq> None"
    using v' vis eqs by auto
  show ?thesis
    using Inr fr leg' i2 i3 i4 i5 a' i7 tc c' by (simp add: invariant_def)
qed

lemma machine_step_keeps_invariant:
  assumes "invariant p"
  shows "case machine_step m e p of
           Inl x \<Rightarrow> x = NullQuery \<and> current_query p = None
         | Inr p' \<Rightarrow> invariant p' \<and> machine_frame p p'"
proof -
  have "case machine_step m e p of
           Inl x \<Rightarrow> x = NullQuery \<and> current_query p = None
         | Inr p' \<Rightarrow>
             invariant p' \<and> machine_frame p p' \<and>
             (e = Sig_textChanged \<longrightarrow>
                connections p' = connections p \<and> results_model p' = results_model p \<and> s_results_visible \<notin> active p')"
    using assms by (intro machine_step_preserves) (simp_all add: invariant_def)
  then show ?thesis by (simp split: sum.splits)
qed


lemma cancel_and_disconnect_connections:
  assumes "invariant p"
  shows "connections (cancel_and_disconnect p) = []"
proof (cases "current_query p")
  case None
  then show ?thesis using assms
    by (cases "connections p") (auto simp: cancel_and_disconnect_def invariant_def)
next
  case (Some q)
  have "\<forall>x \<in> set (connections p). x = (q, Query_finished) \<or> x = (q, Matches_rowsInserted)"
  proof
    fix x assume x: "x \<in> set (connections p)"
    obtain q' sg where [simp]: "x = (q', sg)" by (cases x)
    from x assms Some have "q' = q" by (auto simp: invariant_def)
    then show "x = (q, Query_finished) \<or> x = (q, Matches_rowsInserted)"
      by (cases sg) simp_all
  qed
  then have "set (removeAll (q, Matches_rowsInserted) (removeAll (q, Query_finished) (connections p))) = {}"
    by auto
  then have "removeAll (q, Matches_rowsInserted) (removeAll (q, Query_finished) (connections p)) = []"
    by (simp only: set_empty)
  then show ?thesis using Some by (simp add: cancel_and_disconnect_def)
qed

lemma emit_textChanged_invariant:
  assumes "invariant p"
  shows "\<exists>p'. emit_textChanged m t p = Inr p' \<and> invariant p' \<and>
           current_query p' = Some (next_query p) \<and>
           next_query p' = Suc (next_query p) \<and>
           connections p' = [(next_query p, Query_finished), (next_query p, Matches_rowsInserted)] \<and>
           queries p' = (queries (cancel_and_disconnect p))(next_query p := (new_query t)\<lparr>started := True\<rparr>) \<and>
           queries_list p' = queries_list p @ [next_query p] \<and>
           s_results_visible \<notin> active p' \<and> results_model p' = results_model p \<and>
           history p' = history p \<and> calls p' = calls p \<and>
           window_visible p' = window_visible p \<and> input_text p' = input_text p \<and>
           clearOnHide_flag p' = clearOnHide_flag p \<and>
           show_fallbacks_on_empty_query p' = show_fallbacks_on_empty_query p"
proof -
  let ?p1 = "on_textChanged t p"
  have conn0: "connections (cancel_and_disconnect p) = []"
    using assms by (rule cancel_and_disconnect_connections)
  have p1: "active ?p1 = active p" "current_query ?p1 = Some (next_query p)"
    "next_query ?p1 = Suc (next_query p)"
    "connections ?p1 = [(next_query p, Query_finished), (next_query p, Matches_rowsInserted)]"
    "results_model ?p1 = results_model p" "actions_visible ?p1 = actions_visible p"
    "queries ?p1 = (queries (cancel_and_disconnect p))(next_query p := (new_query t)\<lparr>started := True\<rparr>)"
    "queries_list ?p1 = queries_list p @ [next_query p]"
    "history ?p1 = history p" "calls ?p1 = calls p" "window_visible ?p1 = window_visible p"
    "input_text ?p1 = input_text p" "clearOnHide_flag ?p1 = clearOnHide_flag p"
    "show_fallbacks_on_empty_query ?p1 = show_fallbacks_on_empty_query p"
    using conn0
    by (simp_all add: on_textChanged_def start_query_def Let_def cancel_and_disconnect_def
          split: option.splits)
  have "case machine_step m Sig_textChanged ?p1 of
           Inl x \<Rightarrow> x = NullQuery \<and> current_query ?p1 = None
         | Inr p' \<Rightarrow>
             invariant p' \<and> machine_frame ?p1 p' \<and>
             (Sig_textChanged = Sig_textChanged \<longrightarrow>
                connections p' = connections ?p1 \<and> results_model p' = results_model ?p1 \<and> s_results_visible \<notin> active p')"
    using assms by (intro machine_step_preserves) (auto simp: p1 invariant_def)
  then show ?thesis
    unfolding emit_textChanged_def
    by (cases "machine_step m Sig_textChanged ?p1") (auto simp: p1 machine_frame_def)
qed


lemma legal_fallbacks_visible: "legal c \<Longrightarrow> s_results_model_fallbacks \<in> c \<Longrightarrow> s_results_visible \<in> c"
  unfolding legal_unfold by (simp split: if_splits)

lemma no_reconnect_refl: "no_reconnect p p"
  by (simp add: no_reconnect_def)

lemma no_reconnect_trans: "no_reconnect p p' \<Longrightarrow> no_reconnect p' p'' \<Longrightarrow> no_reconnect p p''"
  unfolding no_reconnect_def by (meson le_trans less_le_trans)

lemma machine_frame_no_reconnect: "machine_frame p p' \<Longrightarrow> no_reconnect p p'"
  by (auto simp: machine_frame_def no_reconnect_def)

lemma emit_textChanged_no_reconnect:
  assumes "invariant p"
  shows "\<exists>p'. emit_textChanged m t p = Inr p' \<and> invariant p' \<and> no_reconnect p p'"
proof -
  from emit_textChanged_invariant [OF assms, of m t] obtain p'
    where "emit_textChanged m t p = Inr p'" "invariant p'"
      "current_query p' = Some (next_query p)" "next_query p' = Suc (next_query p)"
      "connections p' = [(next_query p, Query_finished), (next_query p, Matches_rowsInserted)]"
    by blast
  then show ?thesis by (auto simp: no_reconnect_def)
qed

lemma hideEvent_invariant:
  assumes "invariant p"
  shows "\<exists>p'. hideEvent m p = Inr p' \<and> invariant p' \<and> no_reconnect p p' \<and>
           window_visible p' = window_visible p \<and> calls p' = calls p \<and>
           history p' = history p @ [input_text p']"
proof (cases "clearOnHide_flag p \<and> input_text p \<noteq> []")
  case True
  have inv: "invariant (p\<lparr>input_text := []\<rparr>)" using assms by (simp add: invariant_def)
  from emit_textChanged_invariant [OF inv, of m "[]"] obtain p1
    where p1: "emit_textChanged m [] (p\<lparr>input_text := []\<rparr>) = Inr p1" "invariant p1"
      "current_query p1 = Some (next_query p)" "next_query p1 = Suc (next_query p)"
      "connections p1 = [(next_query p, Query_finished), (next_query p, Matches_rowsInserted)]"
      "history p1 = history p" "calls p1 = calls p" "window_visible p1 = window_visible p"
    by auto
  show ?thesis using True p1
    by (auto simp add: hideEvent_def invariant_def no_reconnect_def)
next
  case False
  then show ?thesis using assms
    by (auto simp add: hideEvent_def invariant_def no_reconnect_def)
qed

lemma window_hide_invariant:
  assumes "invariant p"
  shows "\<exists>p'. window_hide m p = Inr p' \<and> invariant p' \<and> no_reconnect p p' \<and>
           \<not> window_visible p' \<and> calls p' = calls p \<and>
           (if window_visible p then history p' = history p @ [input_text p']
            else p' = p)"
proof (cases "window_visible p")
  case True
  have inv: "invariant (p\<lparr>window_visible := False\<rparr>)" using assms by (simp add: invariant_def)
  from hideEvent_invariant [OF inv, of m] obtain p'
    where "hideEvent m (p\<lparr>window_visible := False\<rparr>) = Inr p'" "invariant p'"
      "no_reconnect (p\<lparr>window_visible := False\<rparr>) p'"
      "window_visible p' = False" "calls p' = calls p" "history p' = history p @ [input_text p']"
    by auto
  then show ?thesis using True by (simp add: window_hide_def no_reconnect_def)
next
  case False
  then show ?thesis using assms by (simp add: window_hide_def no_reconnect_refl)
qed

lemma window_show_invariant:
  assumes "invariant p"
  shows "\<exists>p'. window_show m p = Inr p' \<and> invariant p' \<and> no_reconnect p p'"
proof (cases "window_visible p")
  case True
  then show ?thesis using assms by (simp add: window_show_def no_reconnect_refl)
next
  case False
  have inv: "invariant (p\<lparr>window_visible := True\<rparr>)" using assms by (simp add: invariant_def)
  from emit_textChanged_no_reconnect [OF inv, of m "input_text p"]
  show ?thesis using False by (simp add: window_show_def no_reconnect_def)
qed

lemma activate_invariant:
  assumes "invariant p"
  shows "\<exists>p'. activate m ctrl i a p = Inr p' \<and> invariant p' \<and> no_reconnect p p'"
proof -
  define c where "c = (if s_results_model_matches \<in> active p then ActivateMatch (the (current_query p)) i a
      else if s_results_model_fallbacks \<in> active p then ActivateFallback (the (current_query p)) i a else WARN)"
  define p2 where "p2 = p\<lparr>calls := calls p @ [c], history := history p @ [input_text p]\<rparr>"
  have leg: "legal (active p)" and vis: "s_results_visible \<in> active p \<longrightarrow> current_query p \<noteq> None"
    using assms by (simp_all add: invariant_def)
  have inv2: "invariant p2" using assms by (simp add: invariant_def p2_def)
  have nr: "no_reconnect p p2" by (simp add: no_reconnect_def p2_def)
  have act: "activate m ctrl i a p =
      (if \<not> ctrl then window_hide m p2 else emit_textChanged m (input_text p2) p2)"
    using legal_matches_visible [OF leg] legal_fallbacks_visible [OF leg] vis
    by (auto simp: activate_def p2_def c_def Let_def split: option.splits)
  show ?thesis
  proof (cases ctrl)
    case True
    from emit_textChanged_no_reconnect [OF inv2, of m "input_text p2"]
    show ?thesis using True act nr by (auto intro: no_reconnect_trans)
  next
    case False
    from window_hide_invariant [OF inv2, of m]
    show ?thesis using False act nr by (auto intro: no_reconnect_trans)
  qed
qed

lemma machine_step_no_reconnect:
  assumes "invariant p"
  shows "case machine_step m e p of
           Inl x \<Rightarrow> x = NullQuery \<and> current_query p = None
         | Inr p' \<Rightarrow> invariant p' \<and> no_reconnect p p'"
  using machine_step_keeps_invariant [OF assms, of m e]
  by (auto split: sum.splits intro: machine_frame_no_reconnect)

lemma step_invariant:
  assumes "invariant p"
  shows "case step m e p of
           Inl x \<Rightarrow> x = NullQuery \<and> current_query p = None
         | Inr p' \<Rightarrow> invariant p' \<and> no_reconnect p p'"
proof (cases e)
  case (TextChanged t)
  have inv: "invariant (p\<lparr>input_text := t\<rparr>)" using assms by (simp add: invariant_def)
  from emit_textChanged_no_reconnect [OF inv, of m t]
  show ?thesis using TextChanged by (auto simp: no_reconnect_def)
next
  case Timeout
  have inv: "invariant (p\<lparr>timer_active := False\<rparr>)" using assms by (simp add: invariant_def)
  from machine_step_no_reconnect [OF inv, of m Sig_timeout]
  show ?thesis using Timeout assms
    by (auto simp: no_reconnect_def split: sum.splits)
next
  case (QueryFinished q)
  let ?p = "p\<lparr>queries := (queries p)(q := (queries p q)\<lparr>isFinished := True\<rparr>)\<rparr>"
  have inv: "invariant ?p" using assms by (simp add: invariant_def)
  from machine_step_no_reconnect [OF inv, of m Sig_queryFinsished]
  show ?thesis using QueryFinished inv
    by (auto simp: no_reconnect_def query_finished_def Let_def split: sum.splits)
next
  case (MatchesInserted q rows)
  let ?p = "p\<lparr>queries := (queries p)(q := (queries p q)\<lparr>matches := matches (queries p q) @ rows\<rparr>)\<rparr>"
  have inv: "invariant ?p" using assms by (simp add: invariant_def)
  from machine_step_no_reconnect [OF inv, of m Sig_resultsReady]
  show ?thesis using MatchesInserted inv
    by (auto simp: no_reconnect_def matches_inserted_def Let_def split: sum.splits)
next
  case (FallbacksInserted q rows)
  then show ?thesis using assms
    by (simp add: fallbacks_inserted_def invariant_def no_reconnect_def)
next
  case (KeyPress k)
  then show ?thesis using machine_step_no_reconnect [OF assms, of m "Ev_KeyPress (mods_keys k)"] by simp
next
  case (KeyRelease k)
  then show ?thesis using machine_step_no_reconnect [OF assms, of m "Ev_KeyRelease (mods_keys k)"] by simp
next
  case ButtonEnter
  then show ?thesis using machine_step_no_reconnect [OF assms, of m Ev_Enter] by simp
next
  case ButtonLeave
  then show ?thesis using machine_step_no_reconnect [OF assms, of m Ev_Leave] by simp
next
  case (InputUnderMouse b)
  then show ?thesis using assms by (simp add: invariant_def no_reconnect_def)
next
  case (CurrentRow r)
  then show ?thesis using assms
    by (auto simp add: current_row_def invariant_def no_reconnect_def split: option.splits)
next
  case (ResultsActivated row ctrl)
  then show ?thesis using activate_invariant [OF assms, of m ctrl row 0] by auto
next
  case (ActionsActivated row ctrl)
  then show ?thesis
    using activate_invariant [OF assms, of m ctrl "row_uint (results_current p)" row] by auto
next
  case (SetVisible v)
  then show ?thesis
    using window_show_invariant [OF assms, of m] window_hide_invariant [OF assms, of m]
    by auto
next
  case (SetShowFallbacksOnEmptyMatches b)
  then show ?thesis using assms by (simp add: invariant_def no_reconnect_def)
qed



subsection \<open>Every run keeps the invariant\<close>

lemma addDescendantStatesToEnter_top [simp]:
  "addDescendantStatesToEnter s_button acc = s_button_hidden # s_button # acc"
  "addDescendantStatesToEnter s_results acc = s_results_hidden # s_results # acc"
  by (simp_all add: addDescendantStatesToEnter.simps [of s_button] addDescendantStatesToEnter.simps [of s_results] tree_defs)

lemma machine_start_constructed:
  "machine_start (constructed sf ch) =
     Inr ((constructed sf ch)\<lparr>active := {s_top, s_button, s_button_hidden, s_results, s_results_hidden}\<rparr>)"
  by (simp add: machine_start_def addDescendantStatesToEnter.simps [of s_top] tree_defs
        enterState_def constructed_def insert_commute)

lemma constructed_invariant:
  "invariant ((constructed sf ch)\<lparr>active := {s_top, s_button, s_button_hidden, s_results, s_results_hidden}\<rparr>)"
  by (simp add: invariant_def legal_unfold exactly_one3 constructed_def)

lemma run_invariant:
  "invariant p \<Longrightarrow> run m evs p = Inr p' \<Longrightarrow> invariant p' \<and> no_reconnect p p'"
proof (induction evs arbitrary: p)
  case Nil
  then show ?case by (simp add: no_reconnect_refl)
next
  case (Cons e evs)
  from Cons.prems obtain p1 where p1: "step m e p = Inr p1" "run m evs p1 = Inr p'"
    by (auto split: sum.splits)
  from step_invariant [OF Cons.prems(1), of m e] p1
  have "invariant p1" "no_reconnect p p1" by simp_all
  with Cons.IH [OF _ p1(2)] show ?case by (blast intro: no_reconnect_trans)
qed

lemma launch_invariant: "launch m sf ch evs = Inr p \<Longrightarrow> invariant p"
  using run_invariant [OF constructed_invariant]
  by (auto simp: launch_def machine_start_constructed)

lemmas world_defs = emit_textChanged_def on_textChanged_def
  cancel_and_disconnect_def start_query_def new_query_def query_finished_def matches_inserted_def
  fallbacks_inserted_def current_row_def activate_def window_hide_def window_show_def hideEvent_def
  row_uint_def constructed_def index00_def installEventFilter_def removeEventFilter_def


lemmas step_simps = engine_defs tree_defs test_defs handler_defs legal_unfold exactly_one3

lemma run_error:
  "invariant p \<Longrightarrow> run m evs p = Inl x \<Longrightarrow> x = NullQuery"
proof (induction evs arbitrary: p)
  case Nil
  then show ?case by simp
next
  case (Cons e evs)
  show ?case
  proof (cases "step m e p")
    case (Inl y)
    then show ?thesis using step_invariant [OF Cons.prems(1), of m e] Cons.prems(2) by simp
  next
    case (Inr p1)
    then show ?thesis
      using step_invariant [OF Cons.prems(1), of m e] Cons.prems(2) Cons.IH [of p1] by simp
  qed
qed

lemma mods_keys_inject: "mods_keys a = mods_keys b \<longleftrightarrow> a = b"
  by (cases a; cases b) simp_all

lemma finished_shows_fallbacks:
  assumes "legal (active p)" and "s_results_visible \<notin> active p"
    and "current_query p = Some q" and "show_fallbacks_on_empty_query p"
    and "fallbacks (queries p q) \<noteq> []" and "results_model p \<noteq> Some (FallbacksOf q)"
  shows "case machine_step m Sig_queryFinsished p of
           Inl x \<Rightarrow> False
         | Inr p' \<Rightarrow>
             s_results_visible \<in> active p' \<and> s_results_model_fallbacks \<in> active p' \<and>
             results_model p' = Some (FallbacksOf q) \<and> results_current p' = Some 0 \<and>
             results_visible p' \<and> queries p' = queries p"
proof -
  from legal_cases [OF assms(1)] obtain xs
    where "xs \<in> set configurations" "has_conf (active p) xs" by blast
  then show ?thesis
    using assms(2-) unfolding configurations_eval
    apply simp
    apply (elim disjE)
    apply (simp_all add: has_conf_def document_order_def)
    apply (simp_all add: step_simps index00_def split: option.split bool.split)
    done
qed


lemma finished_enters_fallbacks:
  assumes "legal (active p)" and "s_results_visible \<notin> active p"
    and "current_query p = Some q" and "show_fallbacks_on_empty_query p"
    and "fallbacks (queries p q) \<noteq> []"
  shows "case machine_step m Sig_queryFinsished p of
           Inl x \<Rightarrow> False
         | Inr p' \<Rightarrow>
             s_results_visible \<in> active p' \<and> s_results_model_fallbacks \<in> active p' \<and>
             results_model p' = Some (FallbacksOf q) \<and>
             results_current p' =
               (if results_model p = Some (FallbacksOf q) then results_current p else Some 0)"
proof -
  from legal_cases [OF assms(1)] obtain xs
    where "xs \<in> set configurations" "has_conf (active p) xs" by blast
  then show ?thesis
    using assms(2-) unfolding configurations_eval
    apply simp
    apply (elim disjE)
    apply (simp_all add: has_conf_def document_order_def)
    apply (simp_all add: step_simps index00_def split: option.split bool.split)
    done
qed

section \<open>The claims\<close>

text \<open>
  C1. After every sequence of events that the plugin processes from its start (text
  changes, results ready, query finished, timer timeout, modifier keys pressed and
  released, and the other events of the model), exactly one of \<open>s_results_hidden\<close>,
  \<open>s_results_postpone\<close> and \<open>s_results_visible\<close> is active, and whenever
  \<open>s_results_visible\<close> is active, exactly one of the two model states and exactly one of
  the two actions states is active.
\<close>

theorem results_region_exclusive:
  assumes "launch m showFallbacks clearOnHide evs = Inr p"
  shows "exactly_one (active p) [s_results_hidden, s_results_postpone, s_results_visible] \<and>
         (s_results_visible \<in> active p \<longrightarrow>
            exactly_one (active p) [s_results_model_matches, s_results_model_fallbacks] \<and>
            exactly_one (active p) [s_results_actions_hidden, s_results_actions_visible])"
proof -
  have "legal (active p)" using launch_invariant [OF assms] by (simp add: invariant_def)
  then show ?thesis by (simp add: legal_unfold exactly_one2)
qed

theorem results_region_exclusive_witness:
  "\<exists>p. launch \<lparr>mod_fallback = Mod_Meta, mod_actions = Mod_Alt\<rparr> True False
          [TextChanged ''2+2'', MatchesInserted 0 [1]] = Inr p \<and>
       s_results_visible \<in> active p \<and>
       exactly_one (active p) [s_results_hidden, s_results_postpone, s_results_visible] \<and>
       exactly_one (active p) [s_results_model_matches, s_results_model_fallbacks] \<and>
       exactly_one (active p) [s_results_actions_hidden, s_results_actions_visible]"
proof -
  have "\<exists>p. launch \<lparr>mod_fallback = Mod_Meta, mod_actions = Mod_Alt\<rparr> True False
          [TextChanged ''2+2'', MatchesInserted 0 [1]] = Inr p \<and> s_results_visible \<in> active p"
    apply (simp add: launch_def machine_start_constructed)
    apply (simp add: world_defs engine_defs tree_defs test_defs handler_defs)
    done
  then obtain p where p: "launch \<lparr>mod_fallback = Mod_Meta, mod_actions = Mod_Alt\<rparr> True False
          [TextChanged ''2+2'', MatchesInserted 0 [1]] = Inr p" "s_results_visible \<in> active p"
    by blast
  from results_region_exclusive [OF p(1)] p show ?thesis by blast
qed

text \<open>
  C2. When \<open>s_results_postpone\<close> is active and the signal \<^verbatim>\<open>resultsReady\<close> is delivered,
  the machine goes to \<open>s_results_visible\<close> with \<open>s_results_model_matches\<close>, whatever the
  setting \<^verbatim>\<open>show_fallbacks_on_empty_query\<close> and the fallbacks of the current query are
  (the plugin \<open>p\<close> is arbitrary but for its configuration and its current query).
\<close>

theorem results_ready_in_postponed:
  assumes "legal (active p)" and "s_results_postpone \<in> active p"
    and "current_query p = Some q"
  shows "\<exists>p'. machine_step m Sig_resultsReady p = Inr p' \<and> legal (active p') \<and>
           s_results_visible \<in> active p' \<and> s_results_model_matches \<in> active p' \<and>
           s_results_model_fallbacks \<notin> active p' \<and> s_results_postpone \<notin> active p'"
proof -
  from legal_cases [OF assms(1)] obtain xs
    where "xs \<in> set configurations" "has_conf (active p) xs" by blast
  then have "case machine_step m Sig_resultsReady p of
      Inl x \<Rightarrow> False
    | Inr p' \<Rightarrow> legal (active p') \<and>
           s_results_visible \<in> active p' \<and> s_results_model_matches \<in> active p' \<and>
           s_results_model_fallbacks \<notin> active p' \<and> s_results_postpone \<notin> active p'"
    using assms(2,3) unfolding configurations_eval
    apply simp
    apply (elim disjE)
    apply (simp_all add: has_conf_def document_order_def)
    apply (simp_all add: step_simps split: option.split bool.split)
    done
  then show ?thesis by (cases "machine_step m Sig_resultsReady p") simp_all
qed

theorem results_ready_in_postponed_witness:
  "\<exists>p. launch \<lparr>mod_fallback = Mod_Meta, mod_actions = Mod_Alt\<rparr> True False
          [TextChanged ''a'', MatchesInserted 0 [1], TextChanged ''ab'',
           FallbacksInserted 1 [0, 0]] = Inr p \<and>
       legal (active p) \<and> s_results_postpone \<in> active p \<and> current_query p = Some 1 \<and>
       show_fallbacks_on_empty_query p \<and> length (fallbacks (queries p 1)) = 2 \<and>
       (\<exists>p'. machine_step \<lparr>mod_fallback = Mod_Meta, mod_actions = Mod_Alt\<rparr> Sig_resultsReady p = Inr p' \<and>
          s_results_visible \<in> active p' \<and> s_results_model_matches \<in> active p')"
proof -
  have "\<exists>p. launch \<lparr>mod_fallback = Mod_Meta, mod_actions = Mod_Alt\<rparr> True False
          [TextChanged ''a'', MatchesInserted 0 [1], TextChanged ''ab'',
           FallbacksInserted 1 [0, 0]] = Inr p \<and>
       s_results_postpone \<in> active p \<and> current_query p = Some 1 \<and>
       show_fallbacks_on_empty_query p \<and> length (fallbacks (queries p 1)) = 2"
    apply (simp add: launch_def machine_start_constructed)
    apply (simp add: world_defs engine_defs tree_defs test_defs handler_defs)
    done
  then obtain p where p: "launch \<lparr>mod_fallback = Mod_Meta, mod_actions = Mod_Alt\<rparr> True False
          [TextChanged ''a'', MatchesInserted 0 [1], TextChanged ''ab'',
           FallbacksInserted 1 [0, 0]] = Inr p"
    "s_results_postpone \<in> active p" "current_query p = Some 1"
    "show_fallbacks_on_empty_query p" "length (fallbacks (queries p 1)) = 2"
    by blast
  have leg: "legal (active p)" using launch_invariant [OF p(1)] by (simp add: invariant_def)
  from results_ready_in_postponed [OF leg p(2) p(3)] leg p show ?thesis by blast
qed

text \<open>
  C3. From \<open>s_results_postpone\<close>, an event leaves the machine in \<open>s_results_hidden\<close>
  exactly when it is the timeout of the timer, or the signal \<^verbatim>\<open>queryFinsished\<close> while
  the fallbacks are not to be shown or the current query has none. In particular, with
  the setting off, a query that finishes with no matches and with fallbacks leads to
  \<open>s_results_hidden\<close> and not to \<open>s_results_model_fallbacks\<close>.
\<close>

theorem postponed_to_hidden:
  assumes "legal (active p)" and "s_results_postpone \<in> active p"
    and "current_query p = Some q"
  shows "(\<exists>p'. machine_step m e p = Inr p' \<and> legal (active p') \<and>
            (s_results_hidden \<in> active p' \<longleftrightarrow>
               e = Sig_timeout \<or>
               e = Sig_queryFinsished \<and>
                 (\<not> show_fallbacks_on_empty_query p \<or> fallbacks (queries p q) = []))) \<and>
         (\<not> show_fallbacks_on_empty_query p \<and> matches (queries p q) = [] \<and>
          fallbacks (queries p q) \<noteq> [] \<longrightarrow>
            (\<exists>p'. machine_step m Sig_queryFinsished p = Inr p' \<and>
               s_results_hidden \<in> active p' \<and> s_results_visible \<notin> active p' \<and>
               s_results_model_fallbacks \<notin> active p'))"
proof -
  from legal_cases [OF assms(1)] obtain xs
    where xs: "xs \<in> set configurations" "has_conf (active p) xs" by blast
  have a: "case machine_step m e p of
             Inl x \<Rightarrow> False
           | Inr p' \<Rightarrow> legal (active p') \<and>
               (s_results_hidden \<in> active p' \<longleftrightarrow>
                  e = Sig_timeout \<or>
                  e = Sig_queryFinsished \<and>
                    (\<not> show_fallbacks_on_empty_query p \<or> fallbacks (queries p q) = []))" for e
    using xs assms(2,3) unfolding configurations_eval
    apply simp
    apply (elim disjE)
    apply (simp_all add: has_conf_def document_order_def)
    apply (cases e; simp add: step_simps split: option.split bool.split)+
    done
  have b: "legal c \<Longrightarrow> s_results_hidden \<in> c \<Longrightarrow>
             s_results_visible \<notin> c \<and> s_results_model_fallbacks \<notin> c" for c
    unfolding legal_unfold exactly_one3 by (simp split: if_splits)
  show ?thesis
  proof (intro conjI impI)
    show "\<exists>p'. machine_step m e p = Inr p' \<and> legal (active p') \<and>
            (s_results_hidden \<in> active p' \<longleftrightarrow>
               e = Sig_timeout \<or>
               e = Sig_queryFinsished \<and>
                 (\<not> show_fallbacks_on_empty_query p \<or> fallbacks (queries p q) = []))"
      using a [of e] by (cases "machine_step m e p") simp_all
  next
    assume "\<not> show_fallbacks_on_empty_query p \<and> matches (queries p q) = [] \<and>
          fallbacks (queries p q) \<noteq> []"
    then show "\<exists>p'. machine_step m Sig_queryFinsished p = Inr p' \<and>
               s_results_hidden \<in> active p' \<and> s_results_visible \<notin> active p' \<and>
               s_results_model_fallbacks \<notin> active p'"
      using a [of Sig_queryFinsished] b
      by (cases "machine_step m Sig_queryFinsished p") auto
  qed
qed

theorem postponed_to_hidden_witness:
  "\<exists>p. launch \<lparr>mod_fallback = Mod_Meta, mod_actions = Mod_Alt\<rparr> False False
          [TextChanged ''a'', MatchesInserted 0 [1], TextChanged ''zzzz'',
           FallbacksInserted 1 [0, 0]] = Inr p \<and>
       legal (active p) \<and> s_results_postpone \<in> active p \<and> current_query p = Some 1 \<and>
       \<not> show_fallbacks_on_empty_query p \<and> matches (queries p 1) = [] \<and>
       fallbacks (queries p 1) \<noteq> [] \<and>
       (\<exists>p'. machine_step \<lparr>mod_fallback = Mod_Meta, mod_actions = Mod_Alt\<rparr> Sig_queryFinsished p = Inr p' \<and>
          s_results_hidden \<in> active p' \<and> s_results_visible \<notin> active p' \<and>
          s_results_model_fallbacks \<notin> active p')"
proof -
  have "\<exists>p. launch \<lparr>mod_fallback = Mod_Meta, mod_actions = Mod_Alt\<rparr> False False
          [TextChanged ''a'', MatchesInserted 0 [1], TextChanged ''zzzz'',
           FallbacksInserted 1 [0, 0]] = Inr p \<and>
       s_results_postpone \<in> active p \<and> current_query p = Some 1 \<and>
       \<not> show_fallbacks_on_empty_query p \<and> matches (queries p 1) = [] \<and>
       fallbacks (queries p 1) \<noteq> []"
    apply (simp add: launch_def machine_start_constructed)
    apply (simp add: world_defs engine_defs tree_defs test_defs handler_defs)
    done
  then obtain p where p: "launch \<lparr>mod_fallback = Mod_Meta, mod_actions = Mod_Alt\<rparr> False False
          [TextChanged ''a'', MatchesInserted 0 [1], TextChanged ''zzzz'',
           FallbacksInserted 1 [0, 0]] = Inr p"
    "s_results_postpone \<in> active p" "current_query p = Some 1"
    "\<not> show_fallbacks_on_empty_query p" "matches (queries p 1) = []"
    "fallbacks (queries p 1) \<noteq> []"
    by blast
  have leg: "legal (active p)" using launch_invariant [OF p(1)] by (simp add: invariant_def)
  from postponed_to_hidden [OF leg p(2) p(3), of _ Sig_queryFinsished] leg p show ?thesis by blast
qed

text \<open>
  C4. In every legal configuration: pressing the key of \<^verbatim>\<open>mod_fallback\<close> in
  \<open>s_results_hidden\<close> while the current query has fallbacks leads to \<open>s_results_visible\<close>
  with \<open>s_results_model_fallbacks\<close>; releasing it in \<open>s_results_model_fallbacks\<close> leads to
  \<open>s_results_hidden\<close> if the current query has no matches and to \<open>s_results_visible\<close> with
  \<open>s_results_model_matches\<close> if it has some.
\<close>

theorem fallback_modifier:
  assumes "legal (active p)" and "current_query p = Some q"
  shows "(s_results_hidden \<in> active p \<and> fallbacks (queries p q) \<noteq> [] \<longrightarrow>
            (\<exists>p'. machine_step m (Ev_KeyPress (mods_keys (mod_fallback m))) p = Inr p' \<and>
               legal (active p') \<and>
               s_results_visible \<in> active p' \<and> s_results_model_fallbacks \<in> active p')) \<and>
         (s_results_model_fallbacks \<in> active p \<and> matches (queries p q) = [] \<longrightarrow>
            (\<exists>p'. machine_step m (Ev_KeyRelease (mods_keys (mod_fallback m))) p = Inr p' \<and>
               legal (active p') \<and> s_results_hidden \<in> active p')) \<and>
         (s_results_model_fallbacks \<in> active p \<and> matches (queries p q) \<noteq> [] \<longrightarrow>
            (\<exists>p'. machine_step m (Ev_KeyRelease (mods_keys (mod_fallback m))) p = Inr p' \<and>
               legal (active p') \<and>
               s_results_visible \<in> active p' \<and> s_results_model_matches \<in> active p'))"
proof -
  from legal_cases [OF assms(1)] obtain xs
    where xs: "xs \<in> set configurations" "has_conf (active p) xs" by blast
  have a: "case machine_step m (Ev_KeyPress (mods_keys (mod_fallback m))) p of
             Inl x \<Rightarrow> False
           | Inr p' \<Rightarrow> legal (active p') \<and>
               s_results_visible \<in> active p' \<and> s_results_model_fallbacks \<in> active p'"
    if "s_results_hidden \<in> active p" "fallbacks (queries p q) \<noteq> []"
    using xs assms(2) that unfolding configurations_eval
    apply simp
    apply (elim disjE)
    apply (simp_all add: has_conf_def document_order_def)
    apply (simp_all add: step_simps split: option.split bool.split)
    done
  have b: "case machine_step m (Ev_KeyRelease (mods_keys (mod_fallback m))) p of
             Inl x \<Rightarrow> False
           | Inr p' \<Rightarrow> legal (active p') \<and>
               (if matches (queries p q) = [] then s_results_hidden \<in> active p'
                else s_results_visible \<in> active p' \<and> s_results_model_matches \<in> active p')"
    if "s_results_model_fallbacks \<in> active p"
    using xs assms(2) that unfolding configurations_eval
    apply simp
    apply (elim disjE)
    apply (simp_all add: has_conf_def document_order_def)
    apply (simp_all add: step_simps split: option.split bool.split)
    done
  from a b show ?thesis by (auto split: sum.splits)
qed

theorem fallback_modifier_witness:
  "(\<exists>p. launch \<lparr>mod_fallback = Mod_Meta, mod_actions = Mod_Alt\<rparr> True False
          [TextChanged ''zzzz'', FallbacksInserted 0 [0, 0]] = Inr p \<and>
       legal (active p) \<and> current_query p = Some 0 \<and>
       s_results_hidden \<in> active p \<and> fallbacks (queries p 0) \<noteq> [] \<and>
       (\<exists>p'. machine_step \<lparr>mod_fallback = Mod_Meta, mod_actions = Mod_Alt\<rparr> (Ev_KeyPress Key_Meta) p = Inr p' \<and>
          s_results_visible \<in> active p' \<and> s_results_model_fallbacks \<in> active p')) \<and>
   (\<exists>p. launch \<lparr>mod_fallback = Mod_Meta, mod_actions = Mod_Alt\<rparr> True False
          [TextChanged ''zzzz'', FallbacksInserted 0 [0, 0], KeyPress Mod_Meta] = Inr p \<and>
       legal (active p) \<and> current_query p = Some 0 \<and>
       s_results_model_fallbacks \<in> active p \<and> matches (queries p 0) = [] \<and>
       (\<exists>p'. machine_step \<lparr>mod_fallback = Mod_Meta, mod_actions = Mod_Alt\<rparr> (Ev_KeyRelease Key_Meta) p = Inr p' \<and>
          s_results_hidden \<in> active p')) \<and>
   (\<exists>p. launch \<lparr>mod_fallback = Mod_Meta, mod_actions = Mod_Alt\<rparr> True False
          [TextChanged ''zzzz'', FallbacksInserted 0 [0, 0], KeyPress Mod_Meta,
           MatchesInserted 0 [1]] = Inr p \<and>
       legal (active p) \<and> current_query p = Some 0 \<and>
       s_results_model_fallbacks \<in> active p \<and> matches (queries p 0) \<noteq> [] \<and>
       (\<exists>p'. machine_step \<lparr>mod_fallback = Mod_Meta, mod_actions = Mod_Alt\<rparr> (Ev_KeyRelease Key_Meta) p = Inr p' \<and>
          s_results_visible \<in> active p' \<and> s_results_model_matches \<in> active p'))"
proof -
  let ?m = "\<lparr>mod_fallback = Mod_Meta, mod_actions = Mod_Alt\<rparr>"
  have "\<exists>p. launch ?m True False [TextChanged ''zzzz'', FallbacksInserted 0 [0, 0]] = Inr p \<and>
       current_query p = Some 0 \<and> s_results_hidden \<in> active p \<and> fallbacks (queries p 0) \<noteq> []"
    apply (simp add: launch_def machine_start_constructed)
    apply (simp add: world_defs engine_defs tree_defs test_defs handler_defs)
    done
  then obtain p1 where p1: "launch ?m True False [TextChanged ''zzzz'', FallbacksInserted 0 [0, 0]] = Inr p1"
    "current_query p1 = Some 0" "s_results_hidden \<in> active p1" "fallbacks (queries p1 0) \<noteq> []"
    by blast
  have "\<exists>p. launch ?m True False [TextChanged ''zzzz'', FallbacksInserted 0 [0, 0], KeyPress Mod_Meta] = Inr p \<and>
       current_query p = Some 0 \<and> s_results_model_fallbacks \<in> active p \<and> matches (queries p 0) = []"
    apply (simp add: launch_def machine_start_constructed)
    apply (simp add: world_defs engine_defs tree_defs test_defs handler_defs)
    done
  then obtain p2 where p2: "launch ?m True False [TextChanged ''zzzz'', FallbacksInserted 0 [0, 0], KeyPress Mod_Meta] = Inr p2"
    "current_query p2 = Some 0" "s_results_model_fallbacks \<in> active p2" "matches (queries p2 0) = []"
    by blast
  have "\<exists>p. launch ?m True False [TextChanged ''zzzz'', FallbacksInserted 0 [0, 0], KeyPress Mod_Meta,
           MatchesInserted 0 [1]] = Inr p \<and>
       current_query p = Some 0 \<and> s_results_model_fallbacks \<in> active p \<and> matches (queries p 0) \<noteq> []"
    apply (simp add: launch_def machine_start_constructed)
    apply (simp add: world_defs engine_defs tree_defs test_defs handler_defs)
    done
  then obtain p3 where p3: "launch ?m True False [TextChanged ''zzzz'', FallbacksInserted 0 [0, 0], KeyPress Mod_Meta,
           MatchesInserted 0 [1]] = Inr p3"
    "current_query p3 = Some 0" "s_results_model_fallbacks \<in> active p3" "matches (queries p3 0) \<noteq> []"
    by blast
  have l1: "legal (active p1)" using launch_invariant [OF p1(1)] by (simp add: invariant_def)
  have l2: "legal (active p2)" using launch_invariant [OF p2(1)] by (simp add: invariant_def)
  have l3: "legal (active p3)" using launch_invariant [OF p3(1)] by (simp add: invariant_def)
  have a: "\<exists>p'. machine_step ?m (Ev_KeyPress Key_Meta) p1 = Inr p' \<and>
          s_results_visible \<in> active p' \<and> s_results_model_fallbacks \<in> active p'"
    using fallback_modifier [OF l1 p1(2), of ?m] p1 by auto
  have b: "\<exists>p'. machine_step ?m (Ev_KeyRelease Key_Meta) p2 = Inr p' \<and> s_results_hidden \<in> active p'"
    using fallback_modifier [OF l2 p2(2), of ?m] p2 by auto
  have c: "\<exists>p'. machine_step ?m (Ev_KeyRelease Key_Meta) p3 = Inr p' \<and>
          s_results_visible \<in> active p' \<and> s_results_model_matches \<in> active p'"
    using fallback_modifier [OF l3 p3(2), of ?m] p3 by auto
  show ?thesis using a b c p1 p2 p3 l1 l2 l3 by blast
qed

text \<open>
  C5. In every plugin that the events can produce, only the current query is connected
  to the slots \<^verbatim>\<open>queryFinsished\<close> and \<^verbatim>\<open>resultsReady\<close>. The slot of \<^verbatim>\<open>textChanged\<close>
  first cancels the current query, if any, and disconnects its two signals, which leaves
  no connection at all, and only then constructs, connects and starts the new query:
  after a text change the new query is the only one connected and the previous one is
  canceled. A signal of a query that is not the current one causes no transition.
\<close>

theorem one_query_wired:
  assumes "launch m showFallbacks clearOnHide evs = Inr p"
  shows "(\<forall>q sg. (q, sg) \<in> set (connections p) \<longrightarrow> current_query p = Some q) \<and>
         connections (cancel_and_disconnect p) = [] \<and>
         (\<forall>q. current_query p = Some q \<longrightarrow> canceled (queries (cancel_and_disconnect p) q)) \<and>
         on_textChanged t p = start_query t (cancel_and_disconnect p) \<and>
         (\<exists>p'. step m (TextChanged t) p = Inr p' \<and>
            current_query p' = Some (next_query p) \<and>
            current_query p \<noteq> Some (next_query p) \<and>
            connections p' =
              [(next_query p, Query_finished), (next_query p, Matches_rowsInserted)] \<and>
            started (queries p' (next_query p)) \<and>
            (\<forall>q. current_query p = Some q \<longrightarrow> canceled (queries p' q))) \<and>
         (current_query p \<noteq> Some q \<longrightarrow>
            (\<exists>p'. step m (QueryFinished q) p = Inr p' \<and> active p' = active p) \<and>
            (\<exists>p'. step m (MatchesInserted q rows) p = Inr p' \<and> active p' = active p))"
proof -
  have inv: "invariant p" using launch_invariant [OF assms] .
  have wired: "\<forall>q sg. (q, sg) \<in> set (connections p) \<longrightarrow> current_query p = Some q"
    and below: "\<forall>q. current_query p = Some q \<longrightarrow> q < next_query p"
    using inv by (simp_all add: invariant_def)
  have c: "\<forall>q. current_query p = Some q \<longrightarrow> canceled (queries (cancel_and_disconnect p) q)"
    by (simp add: cancel_and_disconnect_def)
  have inv': "invariant (p\<lparr>input_text := t\<rparr>)" using inv by (simp add: invariant_def)
  from emit_textChanged_invariant [OF inv', of m t] obtain p'
    where p': "emit_textChanged m t (p\<lparr>input_text := t\<rparr>) = Inr p'"
      "current_query p' = Some (next_query p)"
      "connections p' = [(next_query p, Query_finished), (next_query p, Matches_rowsInserted)]"
      "queries p' = (queries (cancel_and_disconnect (p\<lparr>input_text := t\<rparr>)))
                      (next_query p := (new_query t)\<lparr>started := True\<rparr>)"
    by auto
  have tc: "\<exists>p'. step m (TextChanged t) p = Inr p' \<and>
            current_query p' = Some (next_query p) \<and>
            current_query p \<noteq> Some (next_query p) \<and>
            connections p' =
              [(next_query p, Query_finished), (next_query p, Matches_rowsInserted)] \<and>
            started (queries p' (next_query p)) \<and>
            (\<forall>q. current_query p = Some q \<longrightarrow> canceled (queries p' q))"
    using p' below by (auto simp: cancel_and_disconnect_def)
  have stale: "(\<exists>p'. step m (QueryFinished q) p = Inr p' \<and> active p' = active p) \<and>
            (\<exists>p'. step m (MatchesInserted q rows) p = Inr p' \<and> active p' = active p)"
    if "current_query p \<noteq> Some q"
    using that wired by (auto simp: query_finished_def matches_inserted_def Let_def)
  show ?thesis
    using wired cancel_and_disconnect_connections [OF inv] c tc stale
    by (simp add: on_textChanged_def)
qed

theorem one_query_wired_witness:
  "\<exists>p. launch \<lparr>mod_fallback = Mod_Meta, mod_actions = Mod_Alt\<rparr> True False
          [TextChanged ''a'', TextChanged ''ab''] = Inr p \<and>
       current_query p = Some 1 \<and>
       connections p = [(1, Query_finished), (1, Matches_rowsInserted)] \<and>
       canceled (queries p 0) \<and>
       (\<exists>p'. step \<lparr>mod_fallback = Mod_Meta, mod_actions = Mod_Alt\<rparr> (QueryFinished 0) p = Inr p' \<and>
          active p' = active p) \<and>
       (\<exists>p'. step \<lparr>mod_fallback = Mod_Meta, mod_actions = Mod_Alt\<rparr> (MatchesInserted 0 [1]) p = Inr p' \<and>
          active p' = active p) \<and>
       (\<exists>p'. step \<lparr>mod_fallback = Mod_Meta, mod_actions = Mod_Alt\<rparr> (TextChanged ''abc'') p = Inr p' \<and>
          current_query p' = Some 2 \<and> canceled (queries p' 1) \<and>
          connections p' = [(2, Query_finished), (2, Matches_rowsInserted)])"
proof -
  let ?m = "\<lparr>mod_fallback = Mod_Meta, mod_actions = Mod_Alt\<rparr>"
  have "\<exists>p. launch ?m True False [TextChanged ''a'', TextChanged ''ab''] = Inr p \<and>
       current_query p = Some 1 \<and> next_query p = 2 \<and>
       connections p = [(1, Query_finished), (1, Matches_rowsInserted)] \<and>
       canceled (queries p 0)"
    apply (simp add: launch_def machine_start_constructed)
    apply (simp add: world_defs engine_defs tree_defs test_defs handler_defs)
    done
  then obtain p where p: "launch ?m True False [TextChanged ''a'', TextChanged ''ab''] = Inr p"
    "current_query p = Some 1" "next_query p = 2"
    "connections p = [(1, Query_finished), (1, Matches_rowsInserted)]" "canceled (queries p 0)"
    by blast
  from one_query_wired [OF p(1), where q=0 and rows="[1]" and t="''abc''"] p
  show ?thesis by (auto simp: numeral_2_eq_2)
qed

text \<open>
  C6. In every plugin that the events can produce, an activation with row \<open>i\<close> and
  action \<open>a\<close> succeeds: it calls \<^verbatim>\<open>activateMatch\<close> when \<open>s_results_model_matches\<close> is
  active and \<^verbatim>\<open>activateFallback\<close> when \<open>s_results_model_fallbacks\<close> is; in every case the
  input text is added to the history, whatever the history holds; then the window is
  hidden if Control is not held, and otherwise it stays as it was and \<^verbatim>\<open>textChanged\<close>
  is emitted with the same text, which starts a new query for it. The two gestures,
  on the results and on the actions, are this activation.
\<close>

theorem activation:
  assumes "launch m showFallbacks clearOnHide evs = Inr p"
  shows "(\<exists>p'. activate m ctrl i a p = Inr p' \<and>
            (s_results_model_matches \<in> active p \<longrightarrow>
               (\<exists>q. current_query p = Some q \<and> calls p' = calls p @ [ActivateMatch q i a])) \<and>
            (s_results_model_fallbacks \<in> active p \<longrightarrow>
               (\<exists>q. current_query p = Some q \<and> calls p' = calls p @ [ActivateFallback q i a])) \<and>
            (\<exists>rest. history p' = history p @ input_text p # rest) \<and>
            (\<not> ctrl \<longrightarrow> \<not> window_visible p') \<and>
            (ctrl \<longrightarrow>
               window_visible p' = window_visible p \<and> input_text p' = input_text p \<and>
               history p' = history p @ [input_text p] \<and>
               current_query p' = Some (next_query p) \<and>
               query_string (queries p' (next_query p)) = input_text p \<and>
               started (queries p' (next_query p)))) \<and>
         step m (ResultsActivated row ctrl) p = activate m ctrl row 0 p \<and>
         (results_current p = Some row \<longrightarrow>
            step m (ActionsActivated arow ctrl) p = activate m ctrl row arow p)"
proof -
  have inv: "invariant p" using launch_invariant [OF assms] .
  then have leg: "legal (active p)"
    and vis: "s_results_visible \<in> active p \<longrightarrow> current_query p \<noteq> None"
    by (simp_all add: invariant_def)
  have excl: "\<not> (s_results_model_matches \<in> active p \<and> s_results_model_fallbacks \<in> active p)"
    using leg unfolding legal_unfold by (auto split: if_splits)
  define c where "c = (if s_results_model_matches \<in> active p then ActivateMatch (the (current_query p)) i a
      else if s_results_model_fallbacks \<in> active p then ActivateFallback (the (current_query p)) i a else WARN)"
  define p2 where "p2 = p\<lparr>calls := calls p @ [c], history := history p @ [input_text p]\<rparr>"
  have inv2: "invariant p2" using inv by (simp add: invariant_def p2_def)
  have act: "activate m ctrl i a p =
      (if \<not> ctrl then window_hide m p2 else emit_textChanged m (input_text p2) p2)"
    using legal_matches_visible [OF leg] legal_fallbacks_visible [OF leg] vis
    by (auto simp: activate_def p2_def c_def Let_def split: option.splits)
  have cm: "s_results_model_matches \<in> active p \<longrightarrow>
               (\<exists>q. current_query p = Some q \<and> calls p2 = calls p @ [ActivateMatch q i a])"
    using legal_matches_visible [OF leg] vis by (auto simp: p2_def c_def)
  have cf: "s_results_model_fallbacks \<in> active p \<longrightarrow>
               (\<exists>q. current_query p = Some q \<and> calls p2 = calls p @ [ActivateFallback q i a])"
    using legal_fallbacks_visible [OF leg] vis excl by (auto simp: p2_def c_def)
  have main: "\<exists>p'. activate m ctrl i a p = Inr p' \<and>
            (s_results_model_matches \<in> active p \<longrightarrow>
               (\<exists>q. current_query p = Some q \<and> calls p' = calls p @ [ActivateMatch q i a])) \<and>
            (s_results_model_fallbacks \<in> active p \<longrightarrow>
               (\<exists>q. current_query p = Some q \<and> calls p' = calls p @ [ActivateFallback q i a])) \<and>
            (\<exists>rest. history p' = history p @ input_text p # rest) \<and>
            (\<not> ctrl \<longrightarrow> \<not> window_visible p') \<and>
            (ctrl \<longrightarrow>
               window_visible p' = window_visible p \<and> input_text p' = input_text p \<and>
               history p' = history p @ [input_text p] \<and>
               current_query p' = Some (next_query p) \<and>
               query_string (queries p' (next_query p)) = input_text p \<and>
               started (queries p' (next_query p)))"
  proof (cases ctrl)
    case True
    from emit_textChanged_invariant [OF inv2, of m "input_text p2"] obtain p'
      where p': "emit_textChanged m (input_text p2) p2 = Inr p'"
        "current_query p' = Some (next_query p2)"
        "queries p' = (queries (cancel_and_disconnect p2))
                      (next_query p2 := (new_query (input_text p2))\<lparr>started := True\<rparr>)"
        "history p' = history p2" "calls p' = calls p2"
        "window_visible p' = window_visible p2" "input_text p' = input_text p2"
      by auto
    show ?thesis
      using True act p' cm cf by (auto simp: p2_def new_query_def)
  next
    case False
    from window_hide_invariant [OF inv2, of m] obtain p'
      where p': "window_hide m p2 = Inr p'" "\<not> window_visible p'" "calls p' = calls p2"
        "if window_visible p2 then history p' = history p2 @ [input_text p'] else p' = p2"
      by auto
    have "\<exists>rest. history p' = history p @ input_text p # rest"
      using p'(4) by (auto simp: p2_def split: if_splits)
    then show ?thesis
      using False act p' cm cf by auto
  qed
  show ?thesis using main by (auto simp: row_uint_def)
qed

theorem activation_witness:
  "\<exists>p. launch \<lparr>mod_fallback = Mod_Meta, mod_actions = Mod_Alt\<rparr> True False
          [SetVisible True, TextChanged ''2+2'', MatchesInserted 1 [1]] = Inr p \<and>
       s_results_model_matches \<in> active p \<and> window_visible p \<and> input_text p = ''2+2'' \<and>
       calls p = [] \<and>
       (\<exists>p'. step \<lparr>mod_fallback = Mod_Meta, mod_actions = Mod_Alt\<rparr> (ResultsActivated 0 False) p = Inr p' \<and>
          calls p' = [ActivateMatch 1 0 0] \<and> \<not> window_visible p' \<and>
          (\<exists>rest. history p' = history p @ ''2+2'' # rest)) \<and>
       (\<exists>p'. step \<lparr>mod_fallback = Mod_Meta, mod_actions = Mod_Alt\<rparr> (ResultsActivated 0 True) p = Inr p' \<and>
          calls p' = [ActivateMatch 1 0 0] \<and> window_visible p' \<and>
          history p' = history p @ [''2+2''] \<and> current_query p' = Some 2 \<and>
          query_string (queries p' 2) = ''2+2'')"
proof -
  let ?m = "\<lparr>mod_fallback = Mod_Meta, mod_actions = Mod_Alt\<rparr>"
  have "\<exists>p. launch ?m True False [SetVisible True, TextChanged ''2+2'', MatchesInserted 1 [1]] = Inr p \<and>
       s_results_model_matches \<in> active p \<and> window_visible p \<and> input_text p = ''2+2'' \<and>
       calls p = [] \<and> current_query p = Some 1 \<and> next_query p = 2"
    apply (simp add: launch_def machine_start_constructed)
    apply (simp add: world_defs engine_defs tree_defs test_defs handler_defs)
    done
  then obtain p where p: "launch ?m True False [SetVisible True, TextChanged ''2+2'', MatchesInserted 1 [1]] = Inr p"
    "s_results_model_matches \<in> active p" "window_visible p" "input_text p = ''2+2''"
    "calls p = []" "current_query p = Some 1" "next_query p = 2"
    by blast
  from activation [OF p(1), where ctrl=False and i=0 and a=0 and row=0] p
  have a: "\<exists>p'. step ?m (ResultsActivated 0 False) p = Inr p' \<and>
          calls p' = [ActivateMatch 1 0 0] \<and> \<not> window_visible p' \<and>
          (\<exists>rest. history p' = history p @ ''2+2'' # rest)"
    by simp blast
  from activation [OF p(1), where ctrl=True and i=0 and a=0 and row=0] p
  have b: "\<exists>p'. step ?m (ResultsActivated 0 True) p = Inr p' \<and>
          calls p' = [ActivateMatch 1 0 0] \<and> window_visible p' \<and>
          history p' = history p @ [''2+2''] \<and> current_query p' = Some 2 \<and>
          query_string (queries p' 2) = ''2+2''"
    by simp blast
  from a b p show ?thesis by blast
qed

text \<open>
  C7. Entering \<open>s_results_actions_visible\<close> while a row is current and neither
  \<open>s_results_model_matches\<close> nor \<open>s_results_model_fallbacks\<close> is active is \<^verbatim>\<open>qFatal\<close>. From a
  legal configuration no step of the machine ends so, and no run of the plugin does.
\<close>

theorem fatal_unreachable:
  "(results_current p = Some row \<and> s_results_model_matches \<notin> active p \<and>
    s_results_model_fallbacks \<notin> active p \<longrightarrow>
      entered s_results_actions_visible p = Inl Fatal \<and>
      enterState s_results_actions_visible p = Inl Fatal) \<and>
   (legal (active p) \<longrightarrow> machine_step m e p \<noteq> Inl Fatal) \<and>
   launch m showFallbacks clearOnHide evs \<noteq> Inl Fatal"
proof (intro conjI impI)
  assume "results_current p = Some row \<and> s_results_model_matches \<notin> active p \<and>
    s_results_model_fallbacks \<notin> active p"
  then show "entered s_results_actions_visible p = Inl Fatal"
    and "enterState s_results_actions_visible p = Inl Fatal"
    by (simp_all add: entered_results_actions_visible_def enterState_def)
next
  assume "legal (active p)"
  from machine_step_invariant [OF this, where m=m and e=e]
  show "machine_step m e p \<noteq> Inl Fatal" by (cases "machine_step m e p") auto
next
  show "launch m showFallbacks clearOnHide evs \<noteq> Inl Fatal"
    using run_error [OF constructed_invariant [of showFallbacks clearOnHide], where m=m and evs=evs and x=Fatal]
    by (auto simp: launch_def machine_start_constructed)
qed

theorem fatal_unreachable_witness:
  "results_current ((constructed True False)\<lparr>results_current := Some 0\<rparr>) = Some 0 \<and>
   s_results_model_matches \<notin> active ((constructed True False)\<lparr>results_current := Some 0\<rparr>) \<and>
   s_results_model_fallbacks \<notin> active ((constructed True False)\<lparr>results_current := Some 0\<rparr>) \<and>
   entered s_results_actions_visible ((constructed True False)\<lparr>results_current := Some 0\<rparr>) = Inl Fatal \<and>
   (\<exists>p. launch \<lparr>mod_fallback = Mod_Meta, mod_actions = Mod_Alt\<rparr> True False
          [TextChanged ''2+2'', MatchesInserted 0 [1]] = Inr p \<and> legal (active p) \<and>
        results_current p = Some 0 \<and>
        machine_step \<lparr>mod_fallback = Mod_Meta, mod_actions = Mod_Alt\<rparr> (Ev_KeyPress Key_Alt) p \<noteq> Inl Fatal)"
proof -
  let ?m = "\<lparr>mod_fallback = Mod_Meta, mod_actions = Mod_Alt\<rparr>"
  let ?bad = "(constructed True False)\<lparr>results_current := Some 0\<rparr>"
  have bad: "results_current ?bad = Some 0 \<and> s_results_model_matches \<notin> active ?bad \<and>
    s_results_model_fallbacks \<notin> active ?bad"
    by (simp add: constructed_def)
  have "\<exists>p. launch ?m True False [TextChanged ''2+2'', MatchesInserted 0 [1]] = Inr p \<and>
     results_current p = Some 0"
    apply (simp add: launch_def machine_start_constructed)
    apply (simp add: world_defs engine_defs tree_defs test_defs handler_defs)
    done
  then obtain p where p: "launch ?m True False [TextChanged ''2+2'', MatchesInserted 0 [1]] = Inr p"
    "results_current p = Some 0" by blast
  have leg: "legal (active p)" using launch_invariant [OF p(1)] by (simp add: invariant_def)
  from fatal_unreachable [where p="?bad" and row=0 and m="?m" and e="Ev_KeyPress Key_Alt" and showFallbacks=True and clearOnHide=False and evs="[]"] bad
  have a: "entered s_results_actions_visible ?bad = Inl Fatal" by blast
  from fatal_unreachable [where p=p and row=0 and m="?m" and e="Ev_KeyPress Key_Alt" and showFallbacks=True and clearOnHide=False and evs="[]"] leg
  have b: "machine_step ?m (Ev_KeyPress Key_Alt) p \<noteq> Inl Fatal" by blast
  show ?thesis using a b bad p leg by blast
qed

text \<open>
  C8. Entering \<open>s_results_actions_visible\<close> while no row is current is not an error, and
  its handler changes nothing: no model is set on the actions list, the list is not
  shown and no event filter is installed. So, when the key of \<^verbatim>\<open>mod_actions\<close> is not
  the one of \<^verbatim>\<open>mod_fallback\<close>, pressing it with the actions hidden changes the active
  states only.
\<close>

theorem no_selection_no_actions:
  assumes "results_current p = None"
  shows "entered s_results_actions_visible p = Inr p \<and>
         enterState s_results_actions_visible p =
           Inr (p\<lparr>active := insert s_results_actions_visible (active p)\<rparr>) \<and>
         (legal (active p) \<and> s_results_actions_hidden \<in> active p \<and>
          mod_actions m \<noteq> mod_fallback m \<longrightarrow>
            (\<exists>p'. machine_step m (Ev_KeyPress (mods_keys (mod_actions m))) p = Inr p' \<and>
               s_results_actions_visible \<in> active p' \<and> p' = p\<lparr>active := active p'\<rparr>))"
proof (intro conjI impI)
  show "entered s_results_actions_visible p = Inr p"
    using assms by (simp add: entered_results_actions_visible_def)
  then show "enterState s_results_actions_visible p =
           Inr (p\<lparr>active := insert s_results_actions_visible (active p)\<rparr>)"
    by (simp add: enterState_def)
next
  assume a: "legal (active p) \<and> s_results_actions_hidden \<in> active p \<and>
          mod_actions m \<noteq> mod_fallback m"
  then have ne: "mods_keys (mod_actions m) \<noteq> mods_keys (mod_fallback m)"
    by (simp add: mods_keys_inject)
  from a legal_cases [of "active p"] obtain xs
    where xs: "xs \<in> set configurations" "has_conf (active p) xs" by blast
  have "case machine_step m (Ev_KeyPress (mods_keys (mod_actions m))) p of
          Inl x \<Rightarrow> False
        | Inr p' \<Rightarrow> s_results_actions_visible \<in> active p' \<and> p' = p\<lparr>active := active p'\<rparr>"
    using xs a ne assms unfolding configurations_eval
    apply simp
    apply (elim disjE)
    apply (simp_all add: has_conf_def document_order_def)
    apply (simp_all add: step_simps split: option.split bool.split)
    done
  then show "\<exists>p'. machine_step m (Ev_KeyPress (mods_keys (mod_actions m))) p = Inr p' \<and>
               s_results_actions_visible \<in> active p' \<and> p' = p\<lparr>active := active p'\<rparr>"
    by (cases "machine_step m (Ev_KeyPress (mods_keys (mod_actions m))) p") simp_all
qed

theorem no_selection_no_actions_witness:
  "results_current ((constructed True False)
      \<lparr>active := {s_top, s_button, s_button_hidden, s_results, s_results_visible,
                  s_results_model, s_results_model_matches, s_results_actions,
                  s_results_actions_hidden}\<rparr>) = None \<and>
   legal {s_top, s_button, s_button_hidden, s_results, s_results_visible,
          s_results_model, s_results_model_matches, s_results_actions,
          s_results_actions_hidden} \<and>
   (\<exists>p'. machine_step \<lparr>mod_fallback = Mod_Meta, mod_actions = Mod_Alt\<rparr> (Ev_KeyPress Key_Alt)
           ((constructed True False)
             \<lparr>active := {s_top, s_button, s_button_hidden, s_results, s_results_visible,
                         s_results_model, s_results_model_matches, s_results_actions,
                         s_results_actions_hidden}\<rparr>) = Inr p' \<and>
      s_results_actions_visible \<in> active p' \<and> \<not> actions_visible p' \<and>
      actions_model p' = None \<and> input_filters p' = [W_plugin])"
proof -
  let ?c = "{s_top, s_button, s_button_hidden, s_results, s_results_visible,
             s_results_model, s_results_model_matches, s_results_actions,
             s_results_actions_hidden}"
  let ?p = "(constructed True False)\<lparr>active := ?c\<rparr>"
  let ?m = "\<lparr>mod_fallback = Mod_Meta, mod_actions = Mod_Alt\<rparr>"
  have none: "results_current ?p = None" by (simp add: constructed_def)
  have leg: "legal ?c" by (simp add: legal_unfold exactly_one3)
  have hyp: "legal (active ?p) \<and> s_results_actions_hidden \<in> active ?p \<and>
     mod_actions ?m \<noteq> mod_fallback ?m"
    using leg by simp
  from no_selection_no_actions [OF none, where m="?m"] hyp
  obtain p' where p': "machine_step ?m (Ev_KeyPress Key_Alt) ?p = Inr p'"
    "s_results_actions_visible \<in> active p'" "p' = ?p\<lparr>active := active p'\<rparr>"
    by auto
  have "\<not> actions_visible p' \<and> actions_model p' = None \<and> input_filters p' = [W_plugin]"
    using arg_cong [OF p'(3), of actions_visible] arg_cong [OF p'(3), of actions_model]
      arg_cong [OF p'(3), of input_filters]
    by (simp add: constructed_def)
  with p' none leg show ?thesis by blast
qed

text \<open>
  C9, as stated, fails in its last sentence: a query that finishes with no matches and
  with fallbacks does not always end in \<open>s_results_visible\<close> with
  \<open>s_results_model_fallbacks\<close> and row 0 current. With the setting off the machine ends
  in \<open>s_results_hidden\<close>. With the setting on, when the user has looked at the fallbacks
  with the modifier, moved to row 1 and released the key before the query finishes, the
  view is already bound to the fallbacks and row 1 stays current.
\<close>

theorem finished_with_fallbacks_counterexample:
  "observed 0 (launch \<lparr>mod_fallback = Mod_Meta, mod_actions = Mod_Alt\<rparr> False False
      [TextChanged ''zzzz'', FallbacksInserted 0 [0, 0], QueryFinished 0]) =
     Inr ([s_top, s_button, s_button_hidden, s_results, s_results_hidden],
          [], [0, 0], None, None) \<and>
   observed 0 (launch \<lparr>mod_fallback = Mod_Meta, mod_actions = Mod_Alt\<rparr> True False
      [TextChanged ''zzzz'', FallbacksInserted 0 [0, 0], KeyPress Mod_Meta, CurrentRow 1,
       KeyRelease Mod_Meta, QueryFinished 0]) =
     Inr ([s_top, s_button, s_button_hidden, s_results, s_results_visible, s_results_model,
           s_results_model_fallbacks, s_results_actions, s_results_actions_hidden],
          [], [0, 0], Some (FallbacksOf 0), Some 1)"
  apply (simp add: launch_def machine_start_constructed)
  apply (simp add: observed_def world_defs engine_defs tree_defs test_defs handler_defs)
  done

text \<open>
  C9, amended. The handler of \<open>s_results_model_fallbacks\<close> sets the model and the current
  row (row 0 when there are fallbacks) only if the view is not bound to the fallbacks of
  the current query; if it is, the binding and the current row stay as they are, and
  the view is shown. Entering a second time changes nothing more. In particular, with
  the setting \<^verbatim>\<open>show_fallbacks_on_empty_query\<close> on: in every plugin that the events can
  produce, when a text is typed and its query gets fallbacks and finishes without
  matches, with no event in between, the machine ends in \<open>s_results_visible\<close> with
  \<open>s_results_model_fallbacks\<close>, the view bound to these fallbacks and row 0 current; and
  from any legal configuration without \<open>s_results_visible\<close>, when the current query has
  fallbacks and finishes, the machine ends in \<open>s_results_visible\<close> with
  \<open>s_results_model_fallbacks\<close>, with row 0 current if the view was not bound to these
  fallbacks and with the current row kept if it was.
\<close>

theorem entering_fallbacks:
  "(current_query p = Some q \<and> results_model p = Some (FallbacksOf q) \<longrightarrow>
      entered s_results_model_fallbacks p = Inr (p\<lparr>results_visible := True\<rparr>)) \<and>
   (current_query p = Some q \<and> results_model p \<noteq> Some (FallbacksOf q) \<longrightarrow>
      entered s_results_model_fallbacks p =
        Inr (p\<lparr>results_model := Some (FallbacksOf q),
                results_current := (if fallbacks (queries p q) = [] then None else Some 0),
                results_visible := True\<rparr>)) \<and>
   (entered s_results_model_fallbacks p = Inr p1 \<longrightarrow>
      entered s_results_model_fallbacks p1 = Inr p1) \<and>
   (launch m showFallbacks clearOnHide evs = Inr p \<and>
    show_fallbacks_on_empty_query p \<and> rows \<noteq> [] \<longrightarrow>
      (\<exists>p'. run m [TextChanged t, FallbacksInserted (next_query p) rows,
                    QueryFinished (next_query p)] p = Inr p' \<and>
         current_query p' = Some (next_query p) \<and>
         matches (queries p' (next_query p)) = [] \<and>
         fallbacks (queries p' (next_query p)) = rows \<and>
         s_results_visible \<in> active p' \<and> s_results_model_fallbacks \<in> active p' \<and>
         results_model p' = Some (FallbacksOf (next_query p)) \<and>
         results_current p' = Some 0 \<and> results_visible p')) \<and>
   (legal (active p) \<and> s_results_visible \<notin> active p \<and> current_query p = Some q \<and>
    show_fallbacks_on_empty_query p \<and> fallbacks (queries p q) \<noteq> [] \<longrightarrow>
      (\<exists>p'. machine_step m Sig_queryFinsished p = Inr p' \<and>
         s_results_visible \<in> active p' \<and> s_results_model_fallbacks \<in> active p' \<and>
         results_model p' = Some (FallbacksOf q) \<and>
         results_current p' =
           (if results_model p = Some (FallbacksOf q) then results_current p else Some 0)))"
proof (intro conjI impI)
  assume "current_query p = Some q \<and> results_model p = Some (FallbacksOf q)"
  then show "entered s_results_model_fallbacks p = Inr (p\<lparr>results_visible := True\<rparr>)"
    by (simp add: entered_results_model_fallbacks_def)
next
  assume "current_query p = Some q \<and> results_model p \<noteq> Some (FallbacksOf q)"
  then show "entered s_results_model_fallbacks p =
              Inr (p\<lparr>results_model := Some (FallbacksOf q),
                      results_current := (if fallbacks (queries p q) = [] then None else Some 0),
                      results_visible := True\<rparr>)"
    by (auto simp add: entered_results_model_fallbacks_def index00_def)
next
  assume "entered s_results_model_fallbacks p = Inr p1"
  then show "entered s_results_model_fallbacks p1 = Inr p1"
    by (auto simp add: entered_results_model_fallbacks_def Let_def split: if_splits option.splits)
next
  assume a: "launch m showFallbacks clearOnHide evs = Inr p \<and>
            show_fallbacks_on_empty_query p \<and> rows \<noteq> []"
  let ?n = "next_query p"
  have inv: "invariant p" using a launch_invariant by blast
  then have inv': "invariant (p\<lparr>input_text := t\<rparr>)" by (simp add: invariant_def)
  from emit_textChanged_invariant [OF inv', of m t] obtain p1
    where p1: "emit_textChanged m t (p\<lparr>input_text := t\<rparr>) = Inr p1" "invariant p1"
      "current_query p1 = Some ?n"
      "connections p1 = [(?n, Query_finished), (?n, Matches_rowsInserted)]"
      "queries p1 = (queries (cancel_and_disconnect (p\<lparr>input_text := t\<rparr>)))
                      (?n := (new_query t)\<lparr>started := True\<rparr>)"
      "s_results_visible \<notin> active p1" "results_model p1 = results_model p"
      "show_fallbacks_on_empty_query p1 = show_fallbacks_on_empty_query p"
    by auto
  define p3 where "p3 = (fallbacks_inserted ?n rows p1)
     \<lparr>queries := (queries (fallbacks_inserted ?n rows p1))
        (?n := (queries (fallbacks_inserted ?n rows p1) ?n)\<lparr>isFinished := True\<rparr>)\<rparr>"
  have own: "results_model p \<noteq> Some (FallbacksOf ?n)"
    using inv by (auto simp: invariant_def)
  have q3: "matches (queries p3 ?n) = []" "fallbacks (queries p3 ?n) = rows"
    by (simp_all add: p3_def fallbacks_inserted_def p1(5) new_query_def)
  have "case machine_step m Sig_queryFinsished p3 of
           Inl x \<Rightarrow> False
         | Inr p' \<Rightarrow>
             s_results_visible \<in> active p' \<and> s_results_model_fallbacks \<in> active p' \<and>
             results_model p' = Some (FallbacksOf ?n) \<and> results_current p' = Some 0 \<and>
             results_visible p' \<and> queries p' = queries p3"
  proof (rule finished_shows_fallbacks)
    show "legal (active p3)" using p1(2) by (simp add: p3_def fallbacks_inserted_def invariant_def)
    show "s_results_visible \<notin> active p3" using p1(6) by (simp add: p3_def fallbacks_inserted_def)
    show "current_query p3 = Some ?n" using p1(3) by (simp add: p3_def fallbacks_inserted_def)
    show "show_fallbacks_on_empty_query p3" using p1(8) a by (simp add: p3_def fallbacks_inserted_def)
    show "fallbacks (queries p3 ?n) \<noteq> []" using q3 a by simp
    show "results_model p3 \<noteq> Some (FallbacksOf ?n)"
      using own p1(7) by (simp add: p3_def fallbacks_inserted_def)
  qed
  then obtain p' where p': "machine_step m Sig_queryFinsished p3 = Inr p'"
    "s_results_visible \<in> active p'" "s_results_model_fallbacks \<in> active p'"
    "results_model p' = Some (FallbacksOf ?n)" "results_current p' = Some 0"
    "results_visible p'" "queries p' = queries p3"
    by (cases "machine_step m Sig_queryFinsished p3") auto
  have cur: "current_query p' = Some ?n"
    using machine_step_frame [OF p'(1)] p1(3)
    by (simp add: machine_frame_def p3_def fallbacks_inserted_def)
  have "run m [TextChanged t, FallbacksInserted ?n rows, QueryFinished ?n] p = Inr p'"
    using p1(1) p1(4) p'(1)
    by (simp add: query_finished_def Let_def p3_def fallbacks_inserted_def)
  then show "\<exists>p'. run m [TextChanged t, FallbacksInserted ?n rows, QueryFinished ?n] p = Inr p' \<and>
               current_query p' = Some ?n \<and>
               matches (queries p' ?n) = [] \<and>
               fallbacks (queries p' ?n) = rows \<and>
               s_results_visible \<in> active p' \<and> s_results_model_fallbacks \<in> active p' \<and>
               results_model p' = Some (FallbacksOf ?n) \<and>
               results_current p' = Some 0 \<and> results_visible p'"
    using p' q3 cur by auto
next
  assume "legal (active p) \<and> s_results_visible \<notin> active p \<and> current_query p = Some q \<and>
    show_fallbacks_on_empty_query p \<and> fallbacks (queries p q) \<noteq> []"
  then have "case machine_step m Sig_queryFinsished p of
           Inl x \<Rightarrow> False
         | Inr p' \<Rightarrow>
             s_results_visible \<in> active p' \<and> s_results_model_fallbacks \<in> active p' \<and>
             results_model p' = Some (FallbacksOf q) \<and>
             results_current p' =
               (if results_model p = Some (FallbacksOf q) then results_current p else Some 0)"
    by (intro finished_enters_fallbacks) simp_all
  then show "\<exists>p'. machine_step m Sig_queryFinsished p = Inr p' \<and>
         s_results_visible \<in> active p' \<and> s_results_model_fallbacks \<in> active p' \<and>
         results_model p' = Some (FallbacksOf q) \<and>
         results_current p' =
           (if results_model p = Some (FallbacksOf q) then results_current p else Some 0)"
    by (cases "machine_step m Sig_queryFinsished p") simp_all
qed

theorem entering_fallbacks_witness:
  "(\<exists>p. launch \<lparr>mod_fallback = Mod_Meta, mod_actions = Mod_Alt\<rparr> True False
          [TextChanged ''zzzz'', FallbacksInserted 0 [0, 0], KeyPress Mod_Meta, CurrentRow 1,
           KeyRelease Mod_Meta] = Inr p \<and>
        current_query p = Some 0 \<and> results_model p = Some (FallbacksOf 0) \<and>
        results_current p = Some 1 \<and>
        entered s_results_model_fallbacks p = Inr (p\<lparr>results_visible := True\<rparr>) \<and>
        entered s_results_model_fallbacks (p\<lparr>results_visible := True\<rparr>) =
          Inr (p\<lparr>results_visible := True\<rparr>) \<and>
        legal (active p) \<and> s_results_visible \<notin> active p \<and>
        show_fallbacks_on_empty_query p \<and> fallbacks (queries p 0) \<noteq> [] \<and>
        (\<exists>p'. machine_step \<lparr>mod_fallback = Mod_Meta, mod_actions = Mod_Alt\<rparr>
                 Sig_queryFinsished p = Inr p' \<and>
           s_results_visible \<in> active p' \<and> s_results_model_fallbacks \<in> active p' \<and>
           results_current p' = Some 1)) \<and>
   (\<exists>p. launch \<lparr>mod_fallback = Mod_Meta, mod_actions = Mod_Alt\<rparr> True False
          [TextChanged ''zzzz'', FallbacksInserted 0 [0, 0]] = Inr p \<and>
        current_query p = Some 0 \<and> results_model p \<noteq> Some (FallbacksOf 0) \<and>
        (\<exists>p'. entered s_results_model_fallbacks p = Inr p' \<and>
           results_model p' = Some (FallbacksOf 0) \<and> results_current p' = Some 0)) \<and>
   (\<exists>p. launch \<lparr>mod_fallback = Mod_Meta, mod_actions = Mod_Alt\<rparr> True False [] = Inr p \<and>
        show_fallbacks_on_empty_query p \<and> next_query p = 0 \<and>
        (\<exists>p'. run \<lparr>mod_fallback = Mod_Meta, mod_actions = Mod_Alt\<rparr>
                 [TextChanged ''zzzz'', FallbacksInserted 0 [0, 0], QueryFinished 0] p = Inr p' \<and>
           current_query p' = Some 0 \<and>
           matches (queries p' 0) = [] \<and> fallbacks (queries p' 0) = [0, 0] \<and>
           s_results_visible \<in> active p' \<and> s_results_model_fallbacks \<in> active p' \<and>
           results_model p' = Some (FallbacksOf 0) \<and>
           results_current p' = Some 0 \<and> results_visible p'))"
proof -
  let ?m = "\<lparr>mod_fallback = Mod_Meta, mod_actions = Mod_Alt\<rparr>"
  have "\<exists>p. launch ?m True False
          [TextChanged ''zzzz'', FallbacksInserted 0 [0, 0], KeyPress Mod_Meta, CurrentRow 1,
           KeyRelease Mod_Meta] = Inr p \<and>
        current_query p = Some 0 \<and> results_model p = Some (FallbacksOf 0) \<and>
        results_current p = Some 1 \<and> s_results_visible \<notin> active p \<and>
        show_fallbacks_on_empty_query p \<and> fallbacks (queries p 0) \<noteq> []"
    apply (simp add: launch_def machine_start_constructed)
    apply (simp add: world_defs engine_defs tree_defs test_defs handler_defs)
    done
  then obtain pa where pa: "launch ?m True False
          [TextChanged ''zzzz'', FallbacksInserted 0 [0, 0], KeyPress Mod_Meta, CurrentRow 1,
           KeyRelease Mod_Meta] = Inr pa"
     "current_query pa = Some 0" "results_model pa = Some (FallbacksOf 0)"
     "results_current pa = Some 1" "s_results_visible \<notin> active pa"
     "show_fallbacks_on_empty_query pa" "fallbacks (queries pa 0) \<noteq> []"
    by blast
  have la: "legal (active pa)" using launch_invariant [OF pa(1)] by (simp add: invariant_def)
  have a3: "\<exists>p'. machine_step ?m Sig_queryFinsished pa = Inr p' \<and>
           s_results_visible \<in> active p' \<and> s_results_model_fallbacks \<in> active p' \<and>
           results_current p' = Some 1"
  proof -
    from entering_fallbacks [where p=pa and q=0 and m="?m"] pa la
    have "\<exists>p'. machine_step ?m Sig_queryFinsished pa = Inr p' \<and>
         s_results_visible \<in> active p' \<and> s_results_model_fallbacks \<in> active p' \<and>
         results_model p' = Some (FallbacksOf 0) \<and>
         results_current p' =
           (if results_model pa = Some (FallbacksOf 0) then results_current pa else Some 0)"
      by blast
    then show ?thesis using pa(3,4) by auto
  qed
  have a1: "entered s_results_model_fallbacks pa = Inr (pa\<lparr>results_visible := True\<rparr>)"
    using entering_fallbacks [where p=pa and q=0] pa by blast
  have a2: "entered s_results_model_fallbacks (pa\<lparr>results_visible := True\<rparr>) =
          Inr (pa\<lparr>results_visible := True\<rparr>)"
    using entering_fallbacks [where p=pa and ?p1.0="pa\<lparr>results_visible := True\<rparr>"] a1 by blast
  have "\<exists>p. launch ?m True False [TextChanged ''zzzz'', FallbacksInserted 0 [0, 0]] = Inr p \<and>
        current_query p = Some 0 \<and> results_model p \<noteq> Some (FallbacksOf 0) \<and>
        fallbacks (queries p 0) \<noteq> []"
    apply (simp add: launch_def machine_start_constructed)
    apply (simp add: world_defs engine_defs tree_defs test_defs handler_defs)
    done
  then obtain pb where pb: "launch ?m True False [TextChanged ''zzzz'', FallbacksInserted 0 [0, 0]] = Inr pb"
     "current_query pb = Some 0" "results_model pb \<noteq> Some (FallbacksOf 0)"
     "fallbacks (queries pb 0) \<noteq> []"
    by blast
  have b: "\<exists>p'. entered s_results_model_fallbacks pb = Inr p' \<and>
           results_model p' = Some (FallbacksOf 0) \<and> results_current p' = Some 0"
    using entering_fallbacks [where p=pb and q=0] pb by simp
  have "\<exists>p. launch ?m True False [] = Inr p \<and> show_fallbacks_on_empty_query p \<and> next_query p = 0"
    apply (simp add: launch_def machine_start_constructed)
    apply (simp add: constructed_def)
    done
  then obtain pc where pc: "launch ?m True False [] = Inr pc"
     "show_fallbacks_on_empty_query pc" "next_query pc = 0"
    by blast
  have c: "\<exists>p'. run ?m [TextChanged ''zzzz'', FallbacksInserted 0 [0, 0], QueryFinished 0] pc = Inr p' \<and>
           current_query p' = Some 0 \<and>
           matches (queries p' 0) = [] \<and> fallbacks (queries p' 0) = [0, 0] \<and>
           s_results_visible \<in> active p' \<and> s_results_model_fallbacks \<in> active p' \<and>
           results_model p' = Some (FallbacksOf 0) \<and>
           results_current p' = Some 0 \<and> results_visible p'"
  proof -
    have ne: "[0::nat, 0] \<noteq> []" by simp
    from entering_fallbacks [where p=pc and m="?m" and showFallbacks=True and clearOnHide=False
        and evs="[]" and rows="[0, 0]" and t="''zzzz''"] pc(1,2) ne
    have "\<exists>p'. run ?m [TextChanged ''zzzz'', FallbacksInserted (next_query pc) [0, 0],
                    QueryFinished (next_query pc)] pc = Inr p' \<and>
         current_query p' = Some (next_query pc) \<and>
         matches (queries p' (next_query pc)) = [] \<and>
         fallbacks (queries p' (next_query pc)) = [0, 0] \<and>
         s_results_visible \<in> active p' \<and> s_results_model_fallbacks \<in> active p' \<and>
         results_model p' = Some (FallbacksOf (next_query pc)) \<and>
         results_current p' = Some 0 \<and> results_visible p'"
      by blast
    then show ?thesis unfolding pc(3) .
  qed
  show ?thesis using pa la a1 a2 a3 pb b pc c by blast
qed

text \<open>
  C10. The handler of \<open>s_results_model_matches\<close> disconnects the insertions of the
  matches of the current query from \<^verbatim>\<open>resultsReady\<close>. So once that state is active, and
  after any further events, the insertions of that query are not connected: new rows
  of it cause no transition. A text change connects the insertions of another, new
  query.
\<close>

theorem results_ready_disconnected:
  assumes "launch m showFallbacks clearOnHide evs = Inr p"
    and "s_results_model_matches \<in> active p" and "current_query p = Some q"
    and "run m evs' p = Inr p'"
  shows "(q, Matches_rowsInserted) \<notin> set (connections p') \<and>
         (\<exists>p''. step m (MatchesInserted q rows) p' = Inr p'' \<and> active p'' = active p') \<and>
         (\<exists>p'' q'. step m (TextChanged t) p' = Inr p'' \<and> current_query p'' = Some q' \<and>
            q' \<noteq> q \<and> (q', Matches_rowsInserted) \<in> set (connections p'')) \<and>
         (current_query p0 = Some q0 \<and> entered s_results_model_matches p0 = Inr p1 \<longrightarrow>
            (q0, Matches_rowsInserted) \<notin> set (connections p1))"
proof -
  have inv: "invariant p" using launch_invariant [OF assms(1)] .
  then have off: "(q, Matches_rowsInserted) \<notin> set (connections p)" and lt: "q < next_query p"
    using assms(2,3) by (simp_all add: invariant_def)
  from run_invariant [OF inv assms(4)] have inv': "invariant p'" and nr: "no_reconnect p p'"
    by simp_all
  have off': "(q, Matches_rowsInserted) \<notin> set (connections p')"
    using nr off lt by (auto simp: no_reconnect_def)
  have le: "next_query p \<le> next_query p'" using nr by (simp add: no_reconnect_def)
  have a: "\<exists>p''. step m (MatchesInserted q rows) p' = Inr p'' \<and> active p'' = active p'"
    using off' by (simp add: matches_inserted_def Let_def)
  have inv'': "invariant (p'\<lparr>input_text := t\<rparr>)" using inv' by (simp add: invariant_def)
  from emit_textChanged_invariant [OF inv'', of m t] obtain p''
    where "emit_textChanged m t (p'\<lparr>input_text := t\<rparr>) = Inr p''"
      "current_query p'' = Some (next_query p')"
      "connections p'' = [(next_query p', Query_finished), (next_query p', Matches_rowsInserted)]"
    by auto
  then have b: "\<exists>p'' q'. step m (TextChanged t) p' = Inr p'' \<and> current_query p'' = Some q' \<and>
            q' \<noteq> q \<and> (q', Matches_rowsInserted) \<in> set (connections p'')"
    using lt le by auto
  have c: "current_query p0 = Some q0 \<and> entered s_results_model_matches p0 = Inr p1 \<longrightarrow>
            (q0, Matches_rowsInserted) \<notin> set (connections p1)"
    by (auto simp: entered_results_model_matches_def Let_def)
  show ?thesis using off' a b c by blast
qed

theorem results_ready_disconnected_witness:
  "\<exists>p p'. launch \<lparr>mod_fallback = Mod_Meta, mod_actions = Mod_Alt\<rparr> True False
          [TextChanged ''2+2'', MatchesInserted 0 [1]] = Inr p \<and>
       s_results_model_matches \<in> active p \<and> current_query p = Some 0 \<and>
       run \<lparr>mod_fallback = Mod_Meta, mod_actions = Mod_Alt\<rparr>
          [KeyPress Mod_Alt, MatchesInserted 0 [1, 1]] p = Inr p' \<and>
       (0, Matches_rowsInserted) \<notin> set (connections p') \<and>
       (\<exists>p''. step \<lparr>mod_fallback = Mod_Meta, mod_actions = Mod_Alt\<rparr> (MatchesInserted 0 [1]) p' = Inr p'' \<and>
          active p'' = active p') \<and>
       (\<exists>p'' q'. step \<lparr>mod_fallback = Mod_Meta, mod_actions = Mod_Alt\<rparr> (TextChanged ''2+3'') p' = Inr p'' \<and>
          current_query p'' = Some q' \<and> q' \<noteq> 0 \<and>
          (q', Matches_rowsInserted) \<in> set (connections p''))"
proof -
  let ?m = "\<lparr>mod_fallback = Mod_Meta, mod_actions = Mod_Alt\<rparr>"
  have "\<exists>p. launch ?m True False [TextChanged ''2+2'', MatchesInserted 0 [1]] = Inr p \<and>
       s_results_model_matches \<in> active p \<and> current_query p = Some 0 \<and>
       (\<exists>p'. run ?m [KeyPress Mod_Alt, MatchesInserted 0 [1, 1]] p = Inr p')"
    apply (simp add: launch_def machine_start_constructed)
    apply (simp add: world_defs engine_defs tree_defs test_defs handler_defs)
    done
  then obtain p p' where p: "launch ?m True False [TextChanged ''2+2'', MatchesInserted 0 [1]] = Inr p"
    "s_results_model_matches \<in> active p" "current_query p = Some 0"
    and p': "run ?m [KeyPress Mod_Alt, MatchesInserted 0 [1, 1]] p = Inr p'"
    by blast
  from results_ready_disconnected [OF p(1) p(2) p(3) p', where rows="[1]" and t="''2+3''"] p p'
  show ?thesis by blast
qed


end
